theory Spec2Isabelle
  imports Complex_Main "HOL-Library.Multiset"
begin

section \<open>Python values and exceptions\<close>

text \<open>
  The prediction module (\<^verbatim>\<open>model.py\<close>) and the two indexing scripts are Python. Exceptions are
  values of \<open>py_error\<close>; a computation that may raise returns \<open>py_error + 'a\<close> with \<open>Inl\<close> for
  the exception. A Python \<^verbatim>\<open>str\<close> is a \<open>string\<close>, one \<open>char\<close> per code point, so the model
  covers text whose code points are below 256.

  \<open>Unmodelled\<close> is not a Python exception. The models of the two library functions
  \<^verbatim>\<open>json.loads\<close> and \<^verbatim>\<open>int\<close> answer \<open>Inl Unmodelled\<close> on the inputs whose outcome depends on
  what this theory does not describe: the Unicode character database (an escape for a code
  point above 255, text with control or non-ASCII characters given to \<^verbatim>\<open>int\<close>) and the
  interpreter's limit on the digits of an integer literal (4300 by default).
\<close>

datatype py_error =
    JSONDecodeError
  | KeyError string
  | TypeError
  | ValueError
  | OverflowError
  | FileNotFoundError
  | ServiceError string
  | Unmodelled

text \<open>
  A Python \<^verbatim>\<open>float\<close> is a finite binary64 number, an infinity or a NaN. A finite one is kept
  as the rational number it denotes.
\<close>

datatype pyfloat = Finite rat | PosInf | NegInf | NaN

text \<open>The values \<^verbatim>\<open>json.loads\<close> returns. A \<^verbatim>\<open>dict\<close> keeps its keys in insertion order.\<close>

datatype pyval =
    PyNone
  | PyBool bool
  | PyInt int
  | PyFloat pyfloat
  | PyStr string
  | PyList "pyval list"
  | PyDict "(string \<times> pyval) list"

text \<open>
  \<^verbatim>\<open>obj[key]\<close> with a \<^verbatim>\<open>str\<close> key: a \<^verbatim>\<open>dict\<close> raises \<^verbatim>\<open>KeyError\<close> when the key is missing; a
  list or a string wants integer indices and every other JSON value is not subscriptable,
  which are both a \<^verbatim>\<open>TypeError\<close>.
\<close>

fun getitem :: "pyval \<Rightarrow> string \<Rightarrow> py_error + pyval" where
  "getitem (PyDict kvs) key =
     (case map_of kvs key of None \<Rightarrow> Inl (KeyError key) | Some v \<Rightarrow> Inr v)"
| "getitem _ key = Inl TypeError"

text \<open>\<^verbatim>\<open>s.startswith(p)\<close>, \<^verbatim>\<open>s.endswith(p)\<close> and the slice \<^verbatim>\<open>s[i:j]\<close> (step 1).\<close>

definition startswith :: "string \<Rightarrow> string \<Rightarrow> bool" where
  "startswith s p = (take (length p) s = p)"

definition endswith :: "string \<Rightarrow> string \<Rightarrow> bool" where
  "endswith s p = (length p \<le> length s \<and> drop (length s - length p) s = p)"

definition slice_index :: "nat \<Rightarrow> int \<Rightarrow> nat" where
  "slice_index n i = (if i < 0 then nat (max (int n + i) 0) else min (nat i) n)"

definition py_slice :: "'a list \<Rightarrow> int \<Rightarrow> int \<Rightarrow> 'a list" where
  "py_slice s i j =
     (let start = slice_index (length s) i; stop = slice_index (length s) j
      in take (stop - start) (drop start s))"

text \<open>\<^verbatim>\<open>sep.join(parts)\<close>.\<close>

fun join :: "string \<Rightarrow> string list \<Rightarrow> string" where
  "join sep [] = []"
| "join sep [x] = x"
| "join sep (x # y # ys) = x @ sep @ join sep (y # ys)"

subsection \<open>The builtin \<^verbatim>\<open>int\<close>\<close>

definition digit_val :: "char \<Rightarrow> nat option" where
  "digit_val c = map_of (zip ''0123456789'' [0, 1, 2, 3, 4, 5, 6, 7, 8, 9]) c"

definition is_digit :: "char \<Rightarrow> bool" where
  "is_digit c = (digit_val c \<noteq> None)"

definition decimal :: "string \<Rightarrow> int" where
  "decimal ds =
     foldl (\<lambda>n c. 10 * n + (case digit_val c of Some d \<Rightarrow> int d | None \<Rightarrow> 0)) 0 ds"

text \<open>
  The characters \<^verbatim>\<open>int\<close> strips from both ends of its argument: space, tab, newline,
  vertical tab, form feed and carriage return.
\<close>

definition is_space :: "char \<Rightarrow> bool" where
  "is_space c = (c \<in> set [CHR '' '', CHR 0x09, CHR 0x0A, CHR 0x0B, CHR 0x0C, CHR 0x0D])"

definition strip :: "string \<Rightarrow> string" where
  "strip s = rev (dropWhile is_space (rev (dropWhile is_space s)))"

text \<open>
  The digits of an integer literal: a digit first, then digits, each of which a single
  underscore may precede.
\<close>

fun int_digits :: "string \<Rightarrow> bool" where
  "int_digits [] = True"
| "int_digits (c # cs) =
     (if c = CHR ''_''
      then (case cs of [] \<Rightarrow> False | d # ds \<Rightarrow> is_digit d \<and> int_digits ds)
      else is_digit c \<and> int_digits cs)"

definition int_literal :: "string \<Rightarrow> bool" where
  "int_literal s = (case s of [] \<Rightarrow> False | c # cs \<Rightarrow> is_digit c \<and> int_digits cs)"

definition plain_char :: "char \<Rightarrow> bool" where
  "plain_char c = (is_space c \<or> (32 \<le> (of_char c :: nat) \<and> (of_char c :: nat) < 127))"

text \<open>\<^verbatim>\<open>int(s)\<close> for a string: base 10, an optional sign, \<^verbatim>\<open>ValueError\<close> for anything else.\<close>

definition int_of_str :: "string \<Rightarrow> py_error + int" where
  "int_of_str s =
     (if \<not> list_all plain_char s \<or> 4300 < length s then Inl Unmodelled
      else
        let t = strip s;
            (neg, body) =
              (case t of
                 [] \<Rightarrow> (False, t)
               | c # cs \<Rightarrow>
                   if c = CHR ''-'' then (True, cs)
                   else if c = CHR ''+'' then (False, cs)
                   else (False, t))
        in if int_literal body
           then Inr (if neg then - decimal (filter is_digit body)
                     else decimal (filter is_digit body))
           else Inl ValueError)"

text \<open>\<^verbatim>\<open>int(f)\<close> for a float truncates towards zero.\<close>

definition truncate :: "rat \<Rightarrow> int" where
  "truncate q = (if 0 \<le> q then \<lfloor>q\<rfloor> else \<lceil>q\<rceil>)"

fun py_int :: "pyval \<Rightarrow> py_error + int" where
  "py_int PyNone = Inl TypeError"
| "py_int (PyBool b) = Inr (if b then 1 else 0)"
| "py_int (PyInt i) = Inr i"
| "py_int (PyFloat (Finite q)) = Inr (truncate q)"
| "py_int (PyFloat PosInf) = Inl OverflowError"
| "py_int (PyFloat NegInf) = Inl OverflowError"
| "py_int (PyFloat NaN) = Inl ValueError"
| "py_int (PyStr s) = int_of_str s"
| "py_int (PyList xs) = Inl TypeError"
| "py_int (PyDict kvs) = Inl TypeError"

section \<open>The JSON decoder\<close>

text \<open>
  \<^verbatim>\<open>json.loads\<close> of the standard library, as a function from the text to the decoded value
  or the exception. The text is cut into tokens and the tokens are read by a machine with
  a stack of the open arrays and objects. Every malformed text is a \<^verbatim>\<open>JSONDecodeError\<close>,
  so only whether a text is accepted, and with which value, is modelled.
\<close>

subsection \<open>Float literals\<close>

text \<open>
  \<^verbatim>\<open>float\<close> of a decimal literal is the binary64 number nearest to it, ties to an even
  mantissa, and an infinity from \<open>2 ^ 1024 - 2 ^ 970\<close> on.
\<close>

function bit_length :: "int \<Rightarrow> int" where
  "bit_length n = (if 0 < n then bit_length (n div 2) + 1 else 0)"
  by pat_completeness auto
termination
  by (relation "measure nat") auto

declare bit_length.simps [simp del]

definition floor_log2 :: "rat \<Rightarrow> int" where
  "floor_log2 q =
     (let (n, d) = quotient_of q;
          k = bit_length n - bit_length d
      in if 2 powi k \<le> q then k else k - 1)"

definition round_half_even :: "rat \<Rightarrow> int" where
  "round_half_even q =
     (let f = \<lfloor>q\<rfloor>; r = q - of_int f
      in if r < 1 / 2 then f else if 1 / 2 < r then f + 1 else if even f then f else f + 1)"

definition binary64 :: "rat \<Rightarrow> pyfloat" where
  "binary64 q =
     (if q = 0 then Finite 0
      else
        let a = \<bar>q\<bar>;
            p = max (floor_log2 a - 52) (- 1074);
            v = of_int (round_half_even (a / 2 powi p)) * 2 powi p
        in if 2 ^ 1024 \<le> v then (if 0 < q then PosInf else NegInf)
           else Finite (if 0 < q then v else - v))"

subsection \<open>Tokens\<close>

datatype token =
    T_LBrace | T_RBrace | T_LBrack | T_RBrack | T_Colon | T_Comma
  | T_Val pyval

text \<open>
  A number matches \<^verbatim>\<open>(-?(?:0|[1-9][0-9]*))(\.[0-9]+)?([eE][-+]?[0-9]+)?\<close>. With no fraction
  and no exponent it is an \<^verbatim>\<open>int\<close>, otherwise a \<^verbatim>\<open>float\<close>. The result is the value and the
  number of characters matched.
\<close>

definition match_int :: "string \<Rightarrow> string" where
  "match_int s = (if take 1 s = ''0'' then ''0'' else takeWhile is_digit s)"

definition match_frac :: "string \<Rightarrow> string" where
  "match_frac s = (if take 1 s = ''.'' then takeWhile is_digit (drop 1 s) else [])"

definition match_exp :: "string \<Rightarrow> bool \<times> string \<times> nat" where
  "match_exp s =
     (let t = drop 1 s;
          signed = (take 1 t = ''-'' \<or> take 1 t = ''+'');
          ds = takeWhile is_digit (if signed then drop 1 t else t)
      in if (take 1 s = ''e'' \<or> take 1 s = ''E'') \<and> ds \<noteq> []
         then (take 1 t = ''-'', ds, Suc (if signed then Suc (length ds) else length ds))
         else (False, [], 0))"

definition match_number :: "string \<Rightarrow> (pyval \<times> nat) option" where
  "match_number s =
     (let neg = (take 1 s = ''-'');
          s1 = (if neg then drop 1 s else s);
          ip = match_int s1;
          s2 = drop (length ip) s1;
          fp = match_frac s2;
          nf = (if fp = [] then 0 else Suc (length fp));
          ex = match_exp (drop nf s2);
          eneg = fst ex;
          ep = fst (snd ex);
          m = (if neg then - decimal (ip @ fp) else decimal (ip @ fp));
          e = (if eneg then - decimal ep else decimal ep) - int (length fp)
      in if ip = [] then None
         else Some (if fp = [] \<and> ep = [] then PyInt m
                    else PyFloat (binary64 (rat_of_int m * 10 powi e)),
                    length ip + ((if neg then 1 else 0) + nf + snd (snd ex))))"

definition hex_val :: "char \<Rightarrow> nat option" where
  "hex_val c =
     map_of (zip ''0123456789abcdefABCDEF''
               [0, 1, 2, 3, 4, 5, 6, 7, 8, 9, 10, 11, 12, 13, 14, 15, 10, 11, 12, 13, 14, 15]) c"

definition hex4 :: "string \<Rightarrow> nat option" where
  "hex4 s =
     (if length s = 4 \<and> list_all (\<lambda>c. hex_val c \<noteq> None) s
      then Some (foldl (\<lambda>n c. 16 * n + (case hex_val c of Some d \<Rightarrow> d | None \<Rightarrow> 0)) 0 s)
      else None)"

definition backslash :: "char \<Rightarrow> char option" where
  "backslash c =
     map_of [(CHR 0x22, CHR 0x22), (CHR 0x5C, CHR 0x5C), (CHR ''/'', CHR ''/''),
             (CHR ''b'', CHR 0x08), (CHR ''f'', CHR 0x0C), (CHR ''n'', CHR 0x0A),
             (CHR ''r'', CHR 0x0D), (CHR ''t'', CHR 0x09)] c"

definition latin1 :: "nat \<Rightarrow> char" where
  "latin1 n = char_of n"

text \<open>
  The rest of a string after its opening quote: the decoded characters and what follows
  the closing quote. A control character in a string is refused (the decoder is strict).
\<close>

fun scanstring :: "string \<Rightarrow> py_error + (string \<times> string)" where
  "scanstring [] = Inl JSONDecodeError"
| "scanstring (c # cs) =
     (if c = CHR 0x22 then Inr ([], cs)
      else if c = CHR 0x5C then
        (case cs of
           [] \<Rightarrow> Inl JSONDecodeError
         | e # es \<Rightarrow>
             if e = CHR ''u'' then
               (case hex4 (take 4 es) of
                  None \<Rightarrow> Inl JSONDecodeError
                | Some n \<Rightarrow>
                    if 256 \<le> n then Inl Unmodelled
                    else (case scanstring (drop 4 es) of
                            Inl err \<Rightarrow> Inl err
                          | Inr (str, rest) \<Rightarrow> Inr (latin1 n # str, rest)))
             else
               (case backslash e of
                  None \<Rightarrow> Inl JSONDecodeError
                | Some ch \<Rightarrow>
                    (case scanstring es of
                       Inl err \<Rightarrow> Inl err
                     | Inr (str, rest) \<Rightarrow> Inr (ch # str, rest))))
      else if (of_char c :: nat) < 32 then Inl JSONDecodeError
      else (case scanstring cs of
              Inl err \<Rightarrow> Inl err
            | Inr (str, rest) \<Rightarrow> Inr (c # str, rest)))"

definition json_space :: "char \<Rightarrow> bool" where
  "json_space c = (c \<in> set [CHR '' '', CHR 0x09, CHR 0x0A, CHR 0x0D])"

definition punctuation :: "char \<Rightarrow> token option" where
  "punctuation c =
     map_of [(CHR ''{'', T_LBrace), (CHR ''}'', T_RBrace), (CHR ''['', T_LBrack),
             (CHR '']'', T_RBrack), (CHR '':'', T_Colon), (CHR '','', T_Comma)] c"

definition constants :: "(string \<times> pyval) list" where
  "constants =
     [(''null'', PyNone), (''true'', PyBool True), (''false'', PyBool False),
      (''NaN'', PyFloat NaN), (''Infinity'', PyFloat PosInf), (''-Infinity'', PyFloat NegInf)]"

definition match_constant :: "string \<Rightarrow> (pyval \<times> nat) option" where
  "match_constant s =
     (case filter (\<lambda>(name, v). startswith s name) constants of
        [] \<Rightarrow> None
      | (name, v) # _ \<Rightarrow> Some (v, length name))"

text \<open>One token from the front of a text that starts with no white space.\<close>

definition next_token :: "string \<Rightarrow> py_error + (token \<times> string)" where
  "next_token s =
     (case s of
        [] \<Rightarrow> Inl JSONDecodeError
      | c # cs \<Rightarrow>
          (case punctuation c of
             Some t \<Rightarrow> Inr (t, cs)
           | None \<Rightarrow>
               if c = CHR 0x22 then
                 (case scanstring cs of
                    Inl err \<Rightarrow> Inl err
                  | Inr (str, rest) \<Rightarrow> Inr (T_Val (PyStr str), rest))
               else
                 (case match_constant s of
                    Some (v, n) \<Rightarrow> Inr (T_Val v, drop n s)
                  | None \<Rightarrow>
                      (case match_number s of
                         None \<Rightarrow> Inl JSONDecodeError
                       | Some (v, n) \<Rightarrow>
                           if 4300 < n then Inl Unmodelled else Inr (T_Val v, drop n s)))))"

lemma scanstring_rest: "scanstring s = Inr (str, rest) \<Longrightarrow> length rest \<le> length s"
proof (induction s arbitrary: str rest rule: scanstring.induct)
  case 1
  then show ?case by simp
next
  case (2 c cs)
  show ?case
  proof (cases "c = CHR 0x22")
    case True
    with "2.prems" show ?thesis by simp
  next
    case nq: False
    show ?thesis
    proof (cases "c = CHR 0x5C")
      case False
      with nq "2.prems" obtain str' where r: "scanstring cs = Inr (str', rest)"
        and c: "\<not> (of_char c :: nat) < 32"
        by (auto split: if_splits sum.splits)
      from "2.IH"(3) [OF nq False c r] show ?thesis by simp
    next
      case bs: True
      with nq "2.prems" obtain e es where cs: "cs = e # es"
        by (auto split: list.splits)
      show ?thesis
      proof (cases "e = CHR ''u''")
        case True
        with nq bs cs "2.prems" obtain n str' where h: "hex4 (take 4 es) = Some n"
          and n: "\<not> 256 \<le> n" and r: "scanstring (drop 4 es) = Inr (str', rest)"
          by (auto split: option.splits if_splits sum.splits)
        from "2.IH"(1) [OF nq bs cs True h n r] show ?thesis using cs by simp
      next
        case False
        with nq bs cs "2.prems" obtain ch str' where h: "backslash e = Some ch"
          and r: "scanstring es = Inr (str', rest)"
          by (auto split: option.splits if_splits sum.splits)
        from "2.IH"(2) [OF nq bs cs False h r] show ?thesis using cs by simp
      qed
    qed
  qed
qed

lemma match_constant_length: "match_constant s = Some (v, n) \<Longrightarrow> 0 < n"
  by (auto simp: match_constant_def constants_def split: list.splits if_splits)

lemma match_number_length:
  assumes "match_number s = Some (v, n)"
  shows "0 < n"
proof -
  define ip where "ip = match_int (if take 1 s = ''-'' then drop 1 s else s)"
  have "ip \<noteq> []"
    using assms unfolding match_number_def Let_def ip_def by (simp split: if_splits)
  moreover have "length ip \<le> n"
    using assms unfolding match_number_def Let_def ip_def by (auto split: if_splits)
  ultimately show ?thesis by (cases ip) auto
qed

lemma next_token_rest:
  assumes "next_token s = Inr (t, rest)"
  shows "length rest < length s"
proof (cases s)
  case Nil
  with assms show ?thesis by (simp add: next_token_def)
next
  case (Cons c cs)
  show ?thesis
  proof (cases "punctuation c")
    case (Some p)
    with assms Cons show ?thesis by (simp add: next_token_def)
  next
    case None
    show ?thesis
    proof (cases "c = CHR 0x22")
      case True
      with assms Cons None obtain str where "scanstring cs = Inr (str, rest)"
        by (auto simp: next_token_def split: sum.splits)
      from scanstring_rest [OF this] Cons show ?thesis by simp
    next
      case False
      with assms Cons None obtain n where "0 < n" "rest = drop n s"
        by (auto simp: next_token_def split: option.splits if_splits
            dest: match_constant_length match_number_length)
      with Cons show ?thesis by simp
    qed
  qed
qed

text \<open>The tokens of a text; white space (space, tab, newline, carriage return) between them.\<close>

function tokens :: "string \<Rightarrow> py_error + token list" where
  "tokens s =
     (let t = dropWhile json_space s
      in if t = [] then Inr []
         else (case next_token t of
                 Inl err \<Rightarrow> Inl err
               | Inr (tok, rest) \<Rightarrow>
                   (case tokens rest of
                      Inl err \<Rightarrow> Inl err
                    | Inr toks \<Rightarrow> Inr (tok # toks))))"
  by pat_completeness auto
termination
proof (relation "measure length")
  show "wf (measure length)" by simp
next
  fix s t :: string and x tok rest
  assume "t = dropWhile json_space s" "next_token t = Inr x" "(tok, rest) = x"
  then have "length rest < length t" and "length t \<le> length s"
    using next_token_rest [of t tok rest] by (simp_all add: length_dropWhile_le)
  then show "(rest, s) \<in> measure length" by simp
qed

declare tokens.simps [simp del]

subsection \<open>Values from tokens\<close>

text \<open>
  \<open>frame\<close> is an array or object still open: the elements read so far (last first), the
  pairs read so far, or the pairs and the key whose value is being read. A key that comes
  again keeps its place and takes the later value, as in a \<^verbatim>\<open>dict\<close>.
\<close>

datatype frame =
    In_array "pyval list"
  | In_object "(string \<times> pyval) list"
  | In_pair "(string \<times> pyval) list" string

datatype expect =
    Value | Value_or_close | Key_or_close | Key | Colon | Comma_or_close
  | Finished pyval

fun dict_set :: "(string \<times> pyval) list \<Rightarrow> string \<Rightarrow> pyval \<Rightarrow> (string \<times> pyval) list" where
  "dict_set [] k v = [(k, v)]"
| "dict_set ((k', v') # kvs) k v =
     (if k' = k then (k, v) # kvs else (k', v') # dict_set kvs k v)"

fun complete :: "pyval \<Rightarrow> frame list \<Rightarrow> (expect \<times> frame list) option" where
  "complete v [] = Some (Finished v, [])"
| "complete v (In_array xs # st) = Some (Comma_or_close, In_array (v # xs) # st)"
| "complete v (In_pair kvs k # st) = Some (Comma_or_close, In_object (dict_set kvs k v) # st)"
| "complete v (In_object kvs # st) = None"

fun open_value :: "token \<Rightarrow> frame list \<Rightarrow> (expect \<times> frame list) option" where
  "open_value T_LBrack st = Some (Value_or_close, In_array [] # st)"
| "open_value T_LBrace st = Some (Key_or_close, In_object [] # st)"
| "open_value (T_Val v) st = complete v st"
| "open_value _ st = None"

fun step :: "expect \<Rightarrow> frame list \<Rightarrow> token \<Rightarrow> (expect \<times> frame list) option" where
  "step Value st tok = open_value tok st"
| "step Value_or_close (In_array [] # st) T_RBrack = complete (PyList []) st"
| "step Value_or_close st tok = open_value tok st"
| "step Key_or_close (In_object kvs # st) T_RBrace = complete (PyDict kvs) st"
| "step Key_or_close (In_object kvs # st) (T_Val (PyStr k)) = Some (Colon, In_pair kvs k # st)"
| "step Key (In_object kvs # st) (T_Val (PyStr k)) = Some (Colon, In_pair kvs k # st)"
| "step Colon st T_Colon = Some (Value, st)"
| "step Comma_or_close (In_array xs # st) T_Comma = Some (Value, In_array xs # st)"
| "step Comma_or_close (In_array xs # st) T_RBrack = complete (PyList (rev xs)) st"
| "step Comma_or_close (In_object kvs # st) T_Comma = Some (Key, In_object kvs # st)"
| "step Comma_or_close (In_object kvs # st) T_RBrace = complete (PyDict kvs) st"
| "step _ _ _ = None"

fun run :: "expect \<Rightarrow> frame list \<Rightarrow> token list \<Rightarrow> py_error + pyval" where
  "run (Finished v) st [] = Inr v"
| "run e st [] = Inl JSONDecodeError"
| "run e st (tok # toks) =
     (case step e st tok of
        None \<Rightarrow> Inl JSONDecodeError
      | Some (e', st') \<Rightarrow> run e' st' toks)"

definition json_loads :: "string \<Rightarrow> py_error + pyval" where
  "json_loads s =
     (case tokens s of
        Inl err \<Rightarrow> Inl err
      | Inr toks \<Rightarrow> run Value [] toks)"

section \<open>The prediction service (\<^verbatim>\<open>model.py\<close>)\<close>

text \<open>
  A chunk of the index: its text and the three entries of its metadata.
\<close>

record document =
  page_content :: string
  source_file :: string
  topic_name :: string
  topic_id :: int

text \<open>
  What \<^verbatim>\<open>vector_store.as_retriever\<close> is given: the search type and, from \<^verbatim>\<open>search_kwargs\<close>,
  \<^verbatim>\<open>k\<close> and \<^verbatim>\<open>fetch_k\<close>.
\<close>

record retriever =
  search_type :: string
  search_k :: nat
  search_fetch_k :: nat

text \<open>
  The state the module sets up when it is imported: the vector store and the language
  model, which are outside the program and may fail, the topic map read from
  \<^verbatim>\<open>data/topics.json\<close> and its rendering \<^verbatim>\<open>topics_list_str\<close>.
\<close>

record globals =
  retriever_invoke :: "retriever \<Rightarrow> string \<Rightarrow> py_error + document list"
  llm_invoke :: "string \<Rightarrow> py_error + string"
  topics_map :: "string \<rightharpoonup> int"
  topics_list_str :: string

text \<open>What a call of \<^verbatim>\<open>predict\<close> does to the outside, in order.\<close>

datatype call =
    Retriever_invoke retriever string
  | Llm_invoke string
  | Json_loads string
  | Print_failed py_error
  | Print_raw string

definition prompt_template :: "string \<Rightarrow> string \<Rightarrow> string \<Rightarrow> string" where
  \<open>prompt_template context statement topics_list =
     ''You are a meticulous medical expert system. Your task is to evaluate a given medical statement.\<newline>'' @
     ''    **You must base your answer EXCLUSIVELY on the provided "Reference Text". Ignore any of your own prior knowledge.**\<newline>'' @
     ''    \<newline>'' @
     ''    Your task has two parts:\<newline>'' @
     ''    1.  Determine if the statement is TRUE or FALSE according to the text.\<newline>'' @
     ''    2.  Identify the primary medical topic of the statement from the "List of Possible Topics", choosing the one that is the most direct match.\<newline>'' @
     ''    \<newline>'' @
     ''    **Reference Text:**\<newline>'' @
     ''    ---\<newline>'' @
     ''    '' @
     context @
     ''\<newline>'' @
     ''    ---\<newline>'' @
     ''    \<newline>'' @
     ''    **Medical Statement to Evaluate:**\<newline>'' @
     ''    ---\<newline>'' @
     ''    "'' @
     statement @
     ''"\<newline>'' @
     ''    ---\<newline>'' @
     ''    \<newline>'' @
     ''    **List of Possible Topics:**\<newline>'' @
     ''    ---\<newline>'' @
     ''    '' @
     topics_list @
     ''\<newline>'' @
     ''    ---\<newline>'' @
     ''    \<newline>'' @
     ''    Provide your answer in a single, valid JSON object. Do not add any other text, comments, or explanations.\<newline>'' @
     ''    \<newline>'' @
     ''    {\<newline>'' @
     ''        "statement_is_true": <1 for TRUE, 0 for FALSE>,\<newline>'' @
     ''        "statement_topic": <the integer ID of the most relevant topic>\<newline>'' @
     ''    }\<newline>'' @
     ''    ''\<close>

text \<open>
  The handler of \<^verbatim>\<open>predict\<close> is
  \<^verbatim>\<open>except (json.JSONDecodeError, KeyError, TypeError)\<close>.
\<close>

fun caught :: "py_error \<Rightarrow> bool" where
  "caught JSONDecodeError = True"
| "caught (KeyError key) = True"
| "caught TypeError = True"
| "caught _ = False"

text \<open>
  The first statement of the \<^verbatim>\<open>try\<close> block:
  \<^verbatim>\<open>if response_str.startswith("```json"): response_str = response_str[7:-4]\<close>.
\<close>

definition strip_fence :: "string \<Rightarrow> string" where
  "strip_fence response_str =
     (if startswith response_str ''```json'' then py_slice response_str 7 (- 4)
      else response_str)"

text \<open>
  The rest of the \<^verbatim>\<open>try\<close> block, for a decoder \<open>loads\<close>: decode, then read and convert the
  two keys in turn. The first exception ends it.
\<close>

definition parse_body :: "(string \<Rightarrow> py_error + pyval) \<Rightarrow> string \<Rightarrow> py_error + int \<times> int" where
  "parse_body loads response_str =
     (case loads response_str of
        Inl err \<Rightarrow> Inl err
      | Inr result_json \<Rightarrow>
          (case getitem result_json ''statement_is_true'' of
             Inl err \<Rightarrow> Inl err
           | Inr v1 \<Rightarrow>
               (case py_int v1 of
                  Inl err \<Rightarrow> Inl err
                | Inr statement_is_true \<Rightarrow>
                    (case getitem result_json ''statement_topic'' of
                       Inl err \<Rightarrow> Inl err
                     | Inr v2 \<Rightarrow>
                         (case py_int v2 of
                            Inl err \<Rightarrow> Inl err
                          | Inr statement_topic \<Rightarrow>
                              Inr (statement_is_true, statement_topic))))))"

text \<open>
  Step 4 of \<^verbatim>\<open>predict\<close>: the \<^verbatim>\<open>try\<close> block and its handler. The handler prints the
  exception and \<^verbatim>\<open>response_str\<close>, which by then is the text without its fence, and returns
  \<open>(0, 0)\<close>. An exception of another class leaves \<^verbatim>\<open>predict\<close>.
\<close>

definition parse_response ::
  "(string \<Rightarrow> py_error + pyval) \<Rightarrow> string \<Rightarrow> call list \<times> (py_error + int \<times> int)" where
  "parse_response loads response_str =
     (let text = strip_fence response_str
      in case parse_body loads text of
           Inr result \<Rightarrow> ([Json_loads text], Inr result)
         | Inl err \<Rightarrow>
             if caught err
             then ([Json_loads text, Print_failed err, Print_raw text], Inr (0, 0))
             else ([Json_loads text], Inl err))"

definition predict_with ::
  "(string \<Rightarrow> py_error + pyval) \<Rightarrow> globals \<Rightarrow> string \<Rightarrow> call list \<times> (py_error + int \<times> int)"
  where
  "predict_with loads g statement =
     (let retriever = \<lparr>search_type = ''mmr'', search_k = 5, search_fetch_k = 20\<rparr>
      in case retriever_invoke g retriever statement of
           Inl err \<Rightarrow> ([Retriever_invoke retriever statement], Inl err)
         | Inr retrieved_docs \<Rightarrow>
             let context = join ''\<newline>\<newline>'' (map page_content retrieved_docs);
                 final_prompt = prompt_template context statement (topics_list_str g)
             in case llm_invoke g final_prompt of
                  Inl err \<Rightarrow>
                    ([Retriever_invoke retriever statement, Llm_invoke final_prompt], Inl err)
                | Inr response_str \<Rightarrow>
                    (Retriever_invoke retriever statement # Llm_invoke final_prompt #
                       fst (parse_response loads response_str),
                     snd (parse_response loads response_str)))"

text \<open>\<^verbatim>\<open>predict\<close>, with the decoder of the standard library.\<close>

definition predict :: "globals \<Rightarrow> string \<Rightarrow> call list \<times> (py_error + int \<times> int)" where
  "predict g statement = predict_with json_loads g statement"

section \<open>The indexing scripts\<close>

text \<open>
  \<^verbatim>\<open>1_indexing.py\<close> and \<^verbatim>\<open>2_chunking_embedding_ingestion.py\<close> are scripts: each is modelled as a
  function from what it finds (the environment, the files, the index at the storage
  location) to what it leaves, with the calls it makes to the outside and the lines it
  prints, in order. A character outside ASCII in a printed line is written \<open>?\<close>.
\<close>

record config =
  DB_LOCATION :: string
  COLLECTION_NAME :: string
  EMBEDDING_MODEL :: string

definition TOPICS_JSON_PATH :: string where
  "TOPICS_JSON_PATH = ''data/topics.json''"

definition TOPICS_BASE_PATH :: string where
  "TOPICS_BASE_PATH = ''data/topics/''"

text \<open>
  The two libraries the scripts call: the text splitter, made with a chunk size and an
  overlap, whose \<^verbatim>\<open>split_text\<close> returns the chunks or raises (\<open>Inl\<close> the message), and the
  embedding model, made with the model's name.
\<close>

record 'v components =
  split_text :: "nat \<Rightarrow> nat \<Rightarrow> string \<Rightarrow> string + string list"
  embed :: "string \<Rightarrow> string \<Rightarrow> 'v"

text \<open>
  The index \<^verbatim>\<open>Chroma.from_documents\<close> writes: the collection's name and, for every
  document, the document and the embedding of its text.
\<close>

record 'v index =
  collection :: string
  entries :: "(document \<times> 'v) list"

text \<open>
  The files. \<^verbatim>\<open>data/topics.json\<close> is missing, is not JSON, or holds the topic map. Reading
  a file of a topic folder gives its text or raises (\<open>Inl\<close> the message). An entry of the
  topics directory is a folder with its files, in the order \<^verbatim>\<open>os.listdir\<close> gives them, or
  something else. The directory itself may be missing.
\<close>

datatype topics_file = Missing | Malformed | Topics "string \<rightharpoonup> int"

datatype dir_entry = Regular_file | Folder "(string \<times> (string + string)) list"

record 'v world =
  db :: "'v index option"
  topics_json :: topics_file
  topics_dir :: "(string \<times> dir_entry) list option"

datatype event =
    Print string
  | Path_exists string
  | Rmtree string
  | Open_file string
  | Listdir string
  | Isdir string
  | From_documents string string

datatype outcome = Completed | Exit_no_topic_map | Exit_no_documents | Raised py_error

record 'v result =
  outcome :: outcome
  db_after :: "'v index option"
  documents :: "document list"
  events :: "event list"

text \<open>\<^verbatim>\<open>os.path.join\<close> of two components and \<^verbatim>\<open>str\<close> of a count.\<close>

definition path_join :: "string \<Rightarrow> string \<Rightarrow> string" where
  "path_join a b =
     (if startswith b ''/'' then b
      else if a = [] \<or> endswith a ''/'' then a @ b
      else a @ ''/'' @ b)"

fun str_nat :: "nat \<Rightarrow> string" where
  "str_nat n =
     (if n < 10 then [''0123456789'' ! n]
      else str_nat (n div 10) @ [''0123456789'' ! (n mod 10)])"

declare str_nat.simps [simp del]

definition apostrophe :: string where
  "apostrophe = [CHR 0x27]"

text \<open>The documents of one file: one for each chunk, in order.\<close>

definition chunk_documents :: "string \<Rightarrow> string \<Rightarrow> int \<Rightarrow> string list \<Rightarrow> document list" where
  "chunk_documents md_file folder_name tid chunks =
     map (\<lambda>chunk. \<lparr>page_content = chunk, source_file = md_file,
                    topic_name = folder_name, topic_id = tid\<rparr>) chunks"

definition md_files :: "(string \<times> (string + string)) list \<Rightarrow> (string \<times> (string + string)) list" where
  "md_files files = filter (\<lambda>(f, r). endswith f ''.md'') files"

definition topic_folders :: "(string \<times> dir_entry) list \<Rightarrow> (string \<times> (string \<times> (string + string)) list) list" where
  "topic_folders listing =
     concat (map (\<lambda>(d, e). case e of Folder files \<Rightarrow> [(d, files)] | Regular_file \<Rightarrow> []) listing)"

definition from_documents :: "'v components \<Rightarrow> config \<Rightarrow> document list \<Rightarrow> 'v index" where
  "from_documents ext cfg all_docs =
     \<lparr>collection = COLLECTION_NAME cfg,
      entries = map (\<lambda>d. (d, embed ext (EMBEDDING_MODEL cfg) (page_content d))) all_docs\<rparr>"

subsection \<open>\<^verbatim>\<open>1_indexing.py\<close>\<close>

text \<open>
  The body of the loop over the files of a folder, and the loop. The state is \<^verbatim>\<open>all_docs\<close> and
  the events so far. An exception while a file is read or split is printed and the loop
  goes on. Then the body of the loop over the topic folders, and that loop; its state is
  \<^verbatim>\<open>all_docs\<close>, \<^verbatim>\<open>processed_topics_count\<close> and the events so far.
\<close>

fun file_body_1 ::
  "(string \<Rightarrow> string + string list) \<Rightarrow> string \<Rightarrow> string \<Rightarrow> int \<Rightarrow>
   string \<times> (string + string) \<Rightarrow> document list \<times> event list \<Rightarrow> document list \<times> event list"
  where
  "file_body_1 split topic_folder_path folder_name tid (md_file, r) (all_docs, evs) =
     (let file_path = path_join topic_folder_path md_file;
          failed = (\<lambda>msg.
            Print (''  - ? ERROR processing file '' @ apostrophe @ file_path @ apostrophe @
                   '': '' @ msg))
      in case r of
           Inl msg \<Rightarrow> (all_docs, evs @ [Open_file file_path, failed msg])
         | Inr content \<Rightarrow>
             (case split content of
                Inl msg \<Rightarrow> (all_docs, evs @ [Open_file file_path, failed msg])
              | Inr chunks \<Rightarrow>
                  (all_docs @ chunk_documents md_file folder_name tid chunks,
                   evs @ [Open_file file_path])))"

fun files_loop_1 ::
  "(string \<Rightarrow> string + string list) \<Rightarrow> string \<Rightarrow> string \<Rightarrow> int \<Rightarrow>
   (string \<times> (string + string)) list \<Rightarrow> document list \<times> event list \<Rightarrow> document list \<times> event list"
  where
  "files_loop_1 split topic_folder_path folder_name tid [] st = st"
| "files_loop_1 split topic_folder_path folder_name tid (file # rest) st =
     files_loop_1 split topic_folder_path folder_name tid rest
       (file_body_1 split topic_folder_path folder_name tid file st)"

fun folder_body_1 ::
  "(string \<Rightarrow> string + string list) \<Rightarrow> (string \<rightharpoonup> int) \<Rightarrow>
   string \<times> (string \<times> (string + string)) list \<Rightarrow>
   document list \<times> nat \<times> event list \<Rightarrow> document list \<times> nat \<times> event list"
  where
  "folder_body_1 split topic_map (folder_name, files) (all_docs, n, evs) =
     (case topic_map folder_name of
        None \<Rightarrow>
          (all_docs, n,
           evs @ [Print (''  - ?? WARNING: Folder '' @ apostrophe @ folder_name @ apostrophe @
                         '' found on disk but not in topics.json. Skipping.'')])
      | Some tid \<Rightarrow>
          (let topic_folder_path = path_join TOPICS_BASE_PATH folder_name;
               md_files_in_folder = md_files files
           in if md_files_in_folder = []
              then (all_docs, n + 1,
                    evs @ [Listdir topic_folder_path,
                           Print (''  - ? NOTE: No .md files found in folder '' @ apostrophe @
                                  folder_name @ apostrophe)])
              else (case files_loop_1 split topic_folder_path folder_name tid
                           md_files_in_folder (all_docs, evs @ [Listdir topic_folder_path]) of
                      (all_docs', evs') \<Rightarrow> (all_docs', n + 1, evs'))))"

fun folders_loop_1 ::
  "(string \<Rightarrow> string + string list) \<Rightarrow> (string \<rightharpoonup> int) \<Rightarrow>
   (string \<times> (string \<times> (string + string)) list) list \<Rightarrow>
   document list \<times> nat \<times> event list \<Rightarrow> document list \<times> nat \<times> event list"
  where
  "folders_loop_1 split topic_map [] st = st"
| "folders_loop_1 split topic_map (folder # rest) st =
     folders_loop_1 split topic_map rest (folder_body_1 split topic_map folder st)"

text \<open>
  Sections 1 to 3 of the script: the first lines printed, and the old index removed if
  there is one. The result is what is then at the storage location, and the events.
\<close>

definition cleanup_1 :: "config \<Rightarrow> 'v world \<Rightarrow> 'v index option \<times> event list" where
  "cleanup_1 cfg w =
     (let ev1 = [Print ''? Starting the FOLDER-BASED indexing process...'',
                 Print ''Initializing models and text splitter...'',
                 Path_exists (DB_LOCATION cfg)]
      in if db w \<noteq> None
         then (None,
               ev1 @ [Print (''? Removing old database at '' @ DB_LOCATION cfg),
                      Rmtree (DB_LOCATION cfg)])
         else (db w, ev1))"

text \<open>
  Section 5, once the topics directory is listed: the folders among its entries are
  processed in turn.
\<close>

definition scan_1 ::
  "'v components \<Rightarrow> (string \<rightharpoonup> int) \<Rightarrow> (string \<times> dir_entry) list \<Rightarrow> event list \<Rightarrow>
   document list \<times> nat \<times> event list" where
  "scan_1 ext topic_map listing evs =
     folders_loop_1 (split_text ext 1000 200) topic_map (topic_folders listing)
       ([], 0, evs @ map (\<lambda>(d, e). Isdir (path_join TOPICS_BASE_PATH d)) listing)"

text \<open>Sections 6 and 7: the report, the exit when there is no document, the index.\<close>

definition report_1 ::
  "config \<Rightarrow> 'v components \<Rightarrow> 'v index option \<Rightarrow> document list \<times> nat \<times> event list \<Rightarrow> 'v result"
  where
  "report_1 cfg ext db1 st =
     (case st of
        (all_docs, processed_topics_count, evs) \<Rightarrow>
          (let ev6 = evs @
                 [Print (''\<newline>? Successfully processed '' @
                         str_nat processed_topics_count @
                         '' topic folders and created '' @
                         str_nat (length all_docs) @ '' text chunks.'')]
           in if all_docs = []
              then \<lparr>outcome = Exit_no_documents, db_after = db1, documents = all_docs,
                    events = ev6 @
                      [Print ''\<newline>? CRITICAL ERROR: No documents were indexed. Check folder names and paths.'']\<rparr>
              else \<lparr>outcome = Completed,
                    db_after = Some (from_documents ext cfg all_docs),
                    documents = all_docs,
                    events = ev6 @
                      [Print ''? Creating the vector store... (This may take a few minutes)'',
                       From_documents (COLLECTION_NAME cfg) (DB_LOCATION cfg),
                       Print ''\<newline>? Indexing complete! Your vector database is finally ready. ?'']\<rparr>))"

text \<open>The script.\<close>

definition indexing_1 :: "config \<Rightarrow> 'v components \<Rightarrow> 'v world \<Rightarrow> 'v result" where
  "indexing_1 cfg ext w =
     (case cleanup_1 cfg w of
        (db1, ev2) \<Rightarrow>
          (let ev3 = ev2 @ [Print (''? Loading topic map from '' @ apostrophe @ TOPICS_JSON_PATH @
                                   apostrophe @ ''...''),
                            Open_file TOPICS_JSON_PATH]
           in case topics_json w of
                Missing \<Rightarrow>
                  \<lparr>outcome = Exit_no_topic_map, db_after = db1, documents = [],
                   events = ev3 @ [Print (''? ERROR: Could not find topics map at '' @
                                          TOPICS_JSON_PATH)]\<rparr>
              | Malformed \<Rightarrow>
                  \<lparr>outcome = Raised JSONDecodeError, db_after = db1, documents = [],
                   events = ev3\<rparr>
              | Topics topic_map \<Rightarrow>
                  (let ev4 = ev3 @ [Print ''? Processing each topic folder and all .md files within...'',
                                    Listdir TOPICS_BASE_PATH]
                   in case topics_dir w of
                        None \<Rightarrow>
                          \<lparr>outcome = Raised FileNotFoundError, db_after = db1,
                           documents = [], events = ev4\<rparr>
                      | Some listing \<Rightarrow>
                          report_1 cfg ext db1 (scan_1 ext topic_map listing ev4))))"

subsection \<open>\<^verbatim>\<open>2_chunking_embedding_ingestion.py\<close>\<close>

fun file_body_2 ::
  "(string \<Rightarrow> string + string list) \<Rightarrow> string \<Rightarrow> string \<Rightarrow> int \<Rightarrow>
   string \<times> (string + string) \<Rightarrow> document list \<times> event list \<Rightarrow> document list \<times> event list"
  where
  "file_body_2 split topic_folder_path folder_name tid (md_file, r) (all_docs, evs) =
     (let file_path = path_join topic_folder_path md_file;
          failed = (\<lambda>msg.
            Print (''  -  ERROR processing file '' @ apostrophe @ file_path @ apostrophe @
                   '': '' @ msg))
      in case r of
           Inl msg \<Rightarrow> (all_docs, evs @ [Open_file file_path, failed msg])
         | Inr content \<Rightarrow>
             (case split content of
                Inl msg \<Rightarrow> (all_docs, evs @ [Open_file file_path, failed msg])
              | Inr chunks \<Rightarrow>
                  (all_docs @ chunk_documents md_file folder_name tid chunks,
                   evs @ [Open_file file_path])))"

fun files_loop_2 ::
  "(string \<Rightarrow> string + string list) \<Rightarrow> string \<Rightarrow> string \<Rightarrow> int \<Rightarrow>
   (string \<times> (string + string)) list \<Rightarrow> document list \<times> event list \<Rightarrow> document list \<times> event list"
  where
  "files_loop_2 split topic_folder_path folder_name tid [] st = st"
| "files_loop_2 split topic_folder_path folder_name tid (file # rest) st =
     files_loop_2 split topic_folder_path folder_name tid rest
       (file_body_2 split topic_folder_path folder_name tid file st)"

fun folder_body_2 ::
  "(string \<Rightarrow> string + string list) \<Rightarrow> (string \<rightharpoonup> int) \<Rightarrow>
   string \<times> (string \<times> (string + string)) list \<Rightarrow>
   document list \<times> nat \<times> event list \<Rightarrow> document list \<times> nat \<times> event list"
  where
  "folder_body_2 split topic_map (folder_name, files) (all_docs, n, evs) =
     (case topic_map folder_name of
        None \<Rightarrow>
          (all_docs, n,
           evs @ [Print (''  - ?? WARNING: Folder '' @ apostrophe @ folder_name @ apostrophe @
                         '' found on disk but not in '' @ apostrophe @ TOPICS_JSON_PATH @
                         apostrophe @ ''. Skipping.'')])
      | Some tid \<Rightarrow>
          (let topic_folder_path = path_join TOPICS_BASE_PATH folder_name;
               md_files_in_folder = md_files files
           in if md_files_in_folder = []
              then (all_docs, n + 1,
                    evs @ [Listdir topic_folder_path,
                           Print (''  - ? NOTE: No .md files found in folder '' @ apostrophe @
                                  folder_name @ apostrophe)])
              else (case files_loop_2 split topic_folder_path folder_name tid
                           md_files_in_folder (all_docs, evs @ [Listdir topic_folder_path]) of
                      (all_docs', evs') \<Rightarrow> (all_docs', n + 1, evs'))))"

fun folders_loop_2 ::
  "(string \<Rightarrow> string + string list) \<Rightarrow> (string \<rightharpoonup> int) \<Rightarrow>
   (string \<times> (string \<times> (string + string)) list) list \<Rightarrow>
   document list \<times> nat \<times> event list \<Rightarrow> document list \<times> nat \<times> event list"
  where
  "folders_loop_2 split topic_map [] st = st"
| "folders_loop_2 split topic_map (folder # rest) st =
     folders_loop_2 split topic_map rest (folder_body_2 split topic_map folder st)"

text \<open>
  Sections 1 to 3 of the script: the first lines printed, and the old index removed if
  there is one. The result is what is then at the storage location, and the events.
\<close>

definition cleanup_2 :: "config \<Rightarrow> 'v world \<Rightarrow> 'v index option \<times> event list" where
  "cleanup_2 cfg w =
     (let ev1 = [Print '' Starting the indexing process...'',
                 Print (''Initializing embedding model ('' @ EMBEDDING_MODEL cfg @
                        '') and text splitter...''),
                 Path_exists (DB_LOCATION cfg)]
      in if db w \<noteq> None
         then (None,
               ev1 @ [Print (''? Removing old database at '' @ apostrophe @ DB_LOCATION cfg @
                             apostrophe),
                      Rmtree (DB_LOCATION cfg)])
         else (db w, ev1))"

text \<open>
  Section 5, once the topics directory is listed: the folders among its entries are
  processed in turn.
\<close>

definition scan_2 ::
  "'v components \<Rightarrow> (string \<rightharpoonup> int) \<Rightarrow> (string \<times> dir_entry) list \<Rightarrow> event list \<Rightarrow>
   document list \<times> nat \<times> event list" where
  "scan_2 ext topic_map listing evs =
     folders_loop_2 (split_text ext 1000 200) topic_map (topic_folders listing)
       ([], 0, evs @ map (\<lambda>(d, e). Isdir (path_join TOPICS_BASE_PATH d)) listing)"

text \<open>Sections 6 and 7: the report, the exit when there is no document, the index.\<close>

definition report_2 ::
  "config \<Rightarrow> 'v components \<Rightarrow> 'v index option \<Rightarrow> document list \<times> nat \<times> event list \<Rightarrow> 'v result"
  where
  "report_2 cfg ext db1 st =
     (case st of
        (all_docs, processed_topics_count, evs) \<Rightarrow>
          (if all_docs = []
           then \<lparr>outcome = Exit_no_documents, db_after = db1, documents = all_docs,
                 events = evs @
                   [Print ''\<newline> CRITICAL ERROR: No documents were created. Check your folder names, paths, and file contents.'']\<rparr>
           else \<lparr>outcome = Completed,
                 db_after = Some (from_documents ext cfg all_docs),
                 documents = all_docs,
                 events = evs @
                   [Print (''\<newline> Successfully processed '' @
                           str_nat processed_topics_count @
                           '' topic folders, creating '' @
                           str_nat (length all_docs) @ '' text chunks.''),
                    Print ('' Creating the Chroma vector store... (This may take a few minutes with '' @
                           EMBEDDING_MODEL cfg @ '')''),
                    From_documents (COLLECTION_NAME cfg) (DB_LOCATION cfg),
                    Print ''\<newline> Indexing complete! Your vector database is ready. ?'']\<rparr>))"

text \<open>The script.\<close>

definition indexing_2 :: "config \<Rightarrow> 'v components \<Rightarrow> 'v world \<Rightarrow> 'v result" where
  "indexing_2 cfg ext w =
     (case cleanup_2 cfg w of
        (db1, ev2) \<Rightarrow>
          (let ev3 = ev2 @ [Print ('' Loading topic map from '' @ apostrophe @ TOPICS_JSON_PATH @
                                   apostrophe @ ''...''),
                            Open_file TOPICS_JSON_PATH]
           in case topics_json w of
                Missing \<Rightarrow>
                  \<lparr>outcome = Exit_no_topic_map, db_after = db1, documents = [],
                   events = ev3 @ [Print ('' ERROR: Could not find topics map at '' @ apostrophe @
                                          TOPICS_JSON_PATH @ apostrophe @
                                          ''. Please ensure the file exists.'')]\<rparr>
              | Malformed \<Rightarrow>
                  \<lparr>outcome = Raised JSONDecodeError, db_after = db1, documents = [],
                   events = ev3\<rparr>
              | Topics topic_map \<Rightarrow>
                  (let ev4 = ev3 @ [Print (''? Processing topic folders in '' @ apostrophe @
                                           TOPICS_BASE_PATH @ apostrophe @ ''...''),
                                    Listdir TOPICS_BASE_PATH]
                   in case topics_dir w of
                        None \<Rightarrow>
                          \<lparr>outcome = Raised FileNotFoundError, db_after = db1,
                           documents = [], events = ev4\<rparr>
                      | Some listing \<Rightarrow>
                          report_2 cfg ext db1 (scan_2 ext topic_map listing ev4))))"

section \<open>Notions used in the properties\<close>

subsection \<open>For the prediction service\<close>

text \<open>
  \<open>responds g statement r\<close>: with the module state \<open>g\<close>, retrieval succeeds for the statement
  and the language model answers the prompt built from it with the text \<open>r\<close>.
\<close>

definition responds :: "globals \<Rightarrow> string \<Rightarrow> string \<Rightarrow> bool" where
  "responds g statement r =
     (case retriever_invoke g \<lparr>search_type = ''mmr'', search_k = 5, search_fetch_k = 20\<rparr>
             statement of
        Inl err \<Rightarrow> False
      | Inr docs \<Rightarrow>
          llm_invoke g
            (prompt_template (join ''\<newline>\<newline>'' (map page_content docs)) statement
               (topics_list_str g)) = Inr r)"

text \<open>
  A module state for examples: the vector store returns the chunks \<open>docs\<close> and the language
  model answers \<open>r\<close>, whatever they are asked.
\<close>

definition answering_from :: "document list \<Rightarrow> string \<Rightarrow> globals" where
  "answering_from docs r =
     \<lparr>retriever_invoke = (\<lambda>cfg statement. Inr docs),
      llm_invoke = (\<lambda>final_prompt. Inr r),
      topics_map = Map.empty,
      topics_list_str = ''{}''\<rparr>"

definition answering :: "string \<Rightarrow> globals" where
  "answering r = answering_from [] r"

text \<open>
  The words of the specification: the first \<open>n\<close> and the last \<open>m\<close> characters removed, and
  texts put one after another with a separator between them.
\<close>

definition without_first_and_last :: "nat \<Rightarrow> nat \<Rightarrow> 'a list \<Rightarrow> 'a list" where
  "without_first_and_last n m s = rev (drop m (rev (drop n s)))"

definition separated_by :: "string \<Rightarrow> string list \<Rightarrow> string" where
  "separated_by sep xs =
     (case xs of [] \<Rightarrow> [] | x # rest \<Rightarrow> x @ concat (map (\<lambda>y. sep @ y) rest))"

text \<open>Answers of the language model used below.\<close>

definition fenced_response :: string where
  \<open>fenced_response =
     ''```json\<newline>{"statement_is_true": 1, "statement_topic": 3}\<newline>```''\<close>

definition yes_response :: string where
  \<open>yes_response = ''{"statement_is_true": "yes", "statement_topic": 3}''\<close>

definition seven_response :: string where
  \<open>seven_response = ''{"statement_is_true": 7, "statement_topic": 3}''\<close>

definition off_list_response :: string where
  \<open>off_list_response = ''{"statement_is_true": 1, "statement_topic": 99}''\<close>

definition null_topic_response :: string where
  \<open>null_topic_response = ''{"statement_is_true": 1, "statement_topic": null}''\<close>

definition two_chunks :: "document list" where
  "two_chunks =
     [\<lparr>page_content = ''Aspirin inhibits platelets.'', source_file = ''aspirin.md'',
       topic_name = ''Cardiology'', topic_id = 3\<rparr>,
      \<lparr>page_content = ''Warfarin is an anticoagulant.'', source_file = ''warfarin.md'',
       topic_name = ''Cardiology'', topic_id = 3\<rparr>]"

subsection \<open>For the indexing scripts\<close>

text \<open>
  Kinds of events; \<open>calls\<close> are the events of a run without the lines it prints. A chunk is
  \<open>labelled\<close> when the topic map sends its \<^verbatim>\<open>topic_name\<close> to its \<^verbatim>\<open>topic_id\<close>. The records a run
  has written are those of the index it leaves when it completes. Then the files and
  libraries of the examples.
\<close>

fun is_print :: "event \<Rightarrow> bool" where
  "is_print (Print line) = True"
| "is_print _ = False"

fun is_open :: "event \<Rightarrow> bool" where
  "is_open (Open_file path) = True"
| "is_open _ = False"

fun is_write :: "event \<Rightarrow> bool" where
  "is_write (From_documents name path) = True"
| "is_write _ = False"

definition calls :: "event list \<Rightarrow> event list" where
  "calls evs = filter (\<lambda>e. \<not> is_print e) evs"

definition labelled :: "(string \<rightharpoonup> int) \<Rightarrow> document \<Rightarrow> bool" where
  "labelled tm d = (tm (topic_name d) = Some (topic_id d))"

definition records_written :: "'v result \<Rightarrow> document multiset" where
  "records_written r =
     (case db_after r of
        Some idx \<Rightarrow> if outcome r = Completed then mset (map fst (entries idx)) else {#}
      | None \<Rightarrow> {#})"

definition example_config :: config where
  "example_config =
     \<lparr>DB_LOCATION = ''./chroma_db'', COLLECTION_NAME = ''medical_topics'',
      EMBEDDING_MODEL = ''nomic-embed-text''\<rparr>"

definition example_components :: "nat components" where
  "example_components =
     \<lparr>split_text = (\<lambda>chunk_size chunk_overlap text. Inr [text]),
      embed = (\<lambda>model text. length text)\<rparr>"

definition example_topics :: "string \<rightharpoonup> int" where
  "example_topics = [''Cardiology'' \<mapsto> 3]"

definition old_index :: "nat index" where
  "old_index =
     \<lparr>collection = ''medical_topics'',
      entries = [(\<lparr>page_content = ''Old text.'', source_file = ''old.md'',
                   topic_name = ''Cardiology'', topic_id = 3\<rparr>, 9)]\<rparr>"

definition example_world :: "nat world" where
  "example_world =
     \<lparr>db = Some old_index,
      topics_json = Topics example_topics,
      topics_dir =
        Some [(''Cardiology'', Folder [(''aspirin.md'', Inr ''Aspirin inhibits platelets.'')]),
              (''Unlisted'', Folder [(''notes.md'', Inr ''Some notes.'')])]\<rparr>"

definition empty_corpus_world :: "nat world" where
  "empty_corpus_world =
     \<lparr>db = Some old_index, topics_json = Topics example_topics, topics_dir = Some []\<rparr>"

definition fresh_empty_world :: "nat world" where
  "fresh_empty_world =
     \<lparr>db = None, topics_json = Topics example_topics, topics_dir = Some []\<rparr>"

definition no_topic_map_world :: "nat world" where
  "no_topic_map_world =
     \<lparr>db = Some old_index, topics_json = Missing, topics_dir = Some []\<rparr>"

section \<open>Lemmas on the prediction service\<close>

subsection \<open>What \<^verbatim>\<open>predict\<close> does with a response\<close>

lemma responds_answering_from: "responds (answering_from docs r) statement r"
  by (simp add: responds_def answering_from_def)

lemma responds_answering: "responds (answering r) statement r"
  by (simp add: answering_def responds_answering_from)

lemma responds_topics_map: "responds (g\<lparr>topics_map := tm\<rparr>) statement r = responds g statement r"
  by (simp add: responds_def split: sum.splits)

lemma predict_with_responds:
  assumes "responds g statement r"
  shows "\<exists>final_prompt.
           predict_with loads g statement =
             (Retriever_invoke \<lparr>search_type = ''mmr'', search_k = 5, search_fetch_k = 20\<rparr>
                statement #
                Llm_invoke final_prompt # fst (parse_response loads r),
              snd (parse_response loads r))"
  using assms by (auto simp: responds_def predict_with_def Let_def split: sum.splits)

lemma snd_predict_with:
  "responds g statement r \<Longrightarrow>
   snd (predict_with loads g statement) = snd (parse_response loads r)"
  using predict_with_responds [of g statement r loads] by auto

lemma fst_parse_response:
  "\<exists>rest. fst (parse_response loads r) = Json_loads (strip_fence r) # rest \<and>
          (\<forall>t. Json_loads t \<notin> set rest) \<and> (\<forall>cfg s. Retriever_invoke cfg s \<notin> set rest)"
  by (auto simp: parse_response_def Let_def split: sum.splits)

lemma parse_response_ok:
  "parse_body loads (strip_fence r) = Inr p \<Longrightarrow> snd (parse_response loads r) = Inr p"
  by (simp add: parse_response_def Let_def)

lemma parse_response_error:
  "parse_body loads (strip_fence r) = Inl e \<Longrightarrow>
   snd (parse_response loads r) = (if caught e then Inr (0, 0) else Inl e)"
  by (simp add: parse_response_def Let_def)

lemma parse_body_Inr:
  assumes "parse_body loads t = Inr (a, b)"
  shows "\<exists>result_json v1 v2. loads t = Inr result_json \<and>
           getitem result_json ''statement_is_true'' = Inr v1 \<and> py_int v1 = Inr a \<and>
           getitem result_json ''statement_topic'' = Inr v2 \<and> py_int v2 = Inr b"
  using assms unfolding parse_body_def by (auto split: sum.splits)

lemma py_slice_fence:
  "startswith s ''```json'' \<Longrightarrow> py_slice s 7 (- 4) = without_first_and_last 7 4 s"
proof -
  assume "startswith s ''```json''"
  then have len: "7 \<le> length s"
    by (auto simp: startswith_def dest: arg_cong [where f = length])
  have "rev (drop 4 (rev t)) = take (length t - 4) t" for t :: string
    by (simp add: rev_drop)
  from this [of "drop 7 s"] show ?thesis
    using len by (auto simp: py_slice_def slice_index_def without_first_and_last_def Let_def
        max_def min_def nat_diff_distrib nat_add_distrib)
qed

lemma join_separated_by: "join sep xs = separated_by sep xs"
  by (induction sep xs rule: join.induct) (simp_all add: separated_by_def)

subsection \<open>The example responses, decoded\<close>

lemma parse_fenced: "snd (parse_response json_loads fenced_response) = Inr (1, 3)"
  by code_simp

lemma parse_yes: "parse_body json_loads (strip_fence yes_response) = Inl ValueError"
  by code_simp

lemma parse_seven: "parse_body json_loads (strip_fence seven_response) = Inr (7, 3)"
  by code_simp

lemma parse_off_list: "parse_body json_loads (strip_fence off_list_response) = Inr (1, 99)"
  by code_simp

lemma loads_null_topic:
  "json_loads (strip_fence null_topic_response) =
     Inr (PyDict [(''statement_is_true'', PyInt 1), (''statement_topic'', PyNone)])"
  by code_simp

section \<open>Lemmas on the indexing scripts\<close>

lemma calls_append [simp]: "calls (xs @ ys) = calls xs @ calls ys"
  by (simp add: calls_def)

lemma calls_simps [simp]:
  "calls [] = []"
  "calls (Print line # evs) = calls evs"
  "calls (Path_exists p # evs) = Path_exists p # calls evs"
  "calls (Rmtree p # evs) = Rmtree p # calls evs"
  "calls (Open_file p # evs) = Open_file p # calls evs"
  "calls (Listdir p # evs) = Listdir p # calls evs"
  "calls (Isdir p # evs) = Isdir p # calls evs"
  "calls (From_documents c p # evs) = From_documents c p # calls evs"
  by (simp_all add: calls_def)

subsection \<open>The loops of the first script\<close>

lemma file_body_1:
  assumes "file_body_1 split path folder tid x (ds, evs) = (ds', evs')"
  shows "(\<exists>new. ds' = ds @ new \<and> (\<forall>d \<in> set new. topic_name d = folder \<and> topic_id d = tid)) \<and>
         (\<exists>more. evs' = evs @ more \<and> (\<forall>e \<in> set more. \<not> is_write e))"
  using assms by (cases x) (auto simp: Let_def chunk_documents_def split: sum.splits)

lemma files_loop_1:
  assumes "files_loop_1 split path folder tid files (ds, evs) = (ds', evs')"
  shows "(\<exists>new. ds' = ds @ new \<and> (\<forall>d \<in> set new. topic_name d = folder \<and> topic_id d = tid)) \<and>
         (\<exists>more. evs' = evs @ more \<and> (\<forall>e \<in> set more. \<not> is_write e))"
  using assms
proof (induction files arbitrary: ds evs)
  case Nil
  then show ?case by simp
next
  case (Cons x files)
  obtain ds1 evs1 where b: "file_body_1 split path folder tid x (ds, evs) = (ds1, evs1)"
    by (cases "file_body_1 split path folder tid x (ds, evs)")
  with Cons.prems have "files_loop_1 split path folder tid files (ds1, evs1) = (ds', evs')"
    by simp
  from Cons.IH [OF this] file_body_1 [OF b] show ?case
    by (metis append.assoc UnE set_append)
qed

lemma folder_body_1:
  assumes "folder_body_1 split tm x (ds, n, evs) = (ds', n', evs')"
  shows "(\<exists>new. ds' = ds @ new \<and> (\<forall>d \<in> set new. labelled tm d)) \<and>
         (\<exists>more. evs' = evs @ more \<and> (\<forall>e \<in> set more. \<not> is_write e))"
proof (cases x)
  case (Pair folder files)
  show ?thesis
  proof (cases "tm folder")
    case None
    with Pair assms show ?thesis by auto
  next
    case (Some tid)
    show ?thesis
    proof (cases "md_files files = []")
      case True
      with Pair Some assms show ?thesis by (auto simp: Let_def)
    next
      case False
      with Pair Some assms
      have "files_loop_1 split (path_join TOPICS_BASE_PATH folder) folder tid (md_files files)
              (ds, evs @ [Listdir (path_join TOPICS_BASE_PATH folder)]) = (ds', evs')"
        by (auto simp: Let_def split: prod.splits)
      from files_loop_1 [OF this] Some show ?thesis
        by (auto simp: labelled_def)
    qed
  qed
qed

lemma folders_loop_1:
  assumes "folders_loop_1 split tm folders (ds, n, evs) = (ds', n', evs')"
  shows "(\<exists>new. ds' = ds @ new \<and> (\<forall>d \<in> set new. labelled tm d)) \<and>
         (\<exists>more. evs' = evs @ more \<and> (\<forall>e \<in> set more. \<not> is_write e))"
  using assms
proof (induction folders arbitrary: ds n evs)
  case Nil
  then show ?case by simp
next
  case (Cons x folders)
  obtain ds1 n1 evs1 where b: "folder_body_1 split tm x (ds, n, evs) = (ds1, n1, evs1)"
    by (cases "folder_body_1 split tm x (ds, n, evs)")
  with Cons.prems have "folders_loop_1 split tm folders (ds1, n1, evs1) = (ds', n', evs')"
    by simp
  from Cons.IH [OF this] folder_body_1 [OF b] show ?case
    by (metis append.assoc UnE set_append)
qed

subsection \<open>The loops of the second script\<close>

lemma file_body_2:
  assumes "file_body_2 split path folder tid x (ds, evs) = (ds', evs')"
  shows "(\<exists>new. ds' = ds @ new \<and> (\<forall>d \<in> set new. topic_name d = folder \<and> topic_id d = tid)) \<and>
         (\<exists>more. evs' = evs @ more \<and> (\<forall>e \<in> set more. \<not> is_write e))"
  using assms by (cases x) (auto simp: Let_def chunk_documents_def split: sum.splits)

lemma files_loop_2:
  assumes "files_loop_2 split path folder tid files (ds, evs) = (ds', evs')"
  shows "(\<exists>new. ds' = ds @ new \<and> (\<forall>d \<in> set new. topic_name d = folder \<and> topic_id d = tid)) \<and>
         (\<exists>more. evs' = evs @ more \<and> (\<forall>e \<in> set more. \<not> is_write e))"
  using assms
proof (induction files arbitrary: ds evs)
  case Nil
  then show ?case by simp
next
  case (Cons x files)
  obtain ds1 evs1 where b: "file_body_2 split path folder tid x (ds, evs) = (ds1, evs1)"
    by (cases "file_body_2 split path folder tid x (ds, evs)")
  with Cons.prems have "files_loop_2 split path folder tid files (ds1, evs1) = (ds', evs')"
    by simp
  from Cons.IH [OF this] file_body_2 [OF b] show ?case
    by (metis append.assoc UnE set_append)
qed

lemma folder_body_2:
  assumes "folder_body_2 split tm x (ds, n, evs) = (ds', n', evs')"
  shows "(\<exists>new. ds' = ds @ new \<and> (\<forall>d \<in> set new. labelled tm d)) \<and>
         (\<exists>more. evs' = evs @ more \<and> (\<forall>e \<in> set more. \<not> is_write e))"
proof (cases x)
  case (Pair folder files)
  show ?thesis
  proof (cases "tm folder")
    case None
    with Pair assms show ?thesis by auto
  next
    case (Some tid)
    show ?thesis
    proof (cases "md_files files = []")
      case True
      with Pair Some assms show ?thesis by (auto simp: Let_def)
    next
      case False
      with Pair Some assms
      have "files_loop_2 split (path_join TOPICS_BASE_PATH folder) folder tid (md_files files)
              (ds, evs @ [Listdir (path_join TOPICS_BASE_PATH folder)]) = (ds', evs')"
        by (auto simp: Let_def split: prod.splits)
      from files_loop_2 [OF this] Some show ?thesis
        by (auto simp: labelled_def)
    qed
  qed
qed

lemma folders_loop_2:
  assumes "folders_loop_2 split tm folders (ds, n, evs) = (ds', n', evs')"
  shows "(\<exists>new. ds' = ds @ new \<and> (\<forall>d \<in> set new. labelled tm d)) \<and>
         (\<exists>more. evs' = evs @ more \<and> (\<forall>e \<in> set more. \<not> is_write e))"
  using assms
proof (induction folders arbitrary: ds n evs)
  case Nil
  then show ?case by simp
next
  case (Cons x folders)
  obtain ds1 n1 evs1 where b: "folder_body_2 split tm x (ds, n, evs) = (ds1, n1, evs1)"
    by (cases "folder_body_2 split tm x (ds, n, evs)")
  with Cons.prems have "folders_loop_2 split tm folders (ds1, n1, evs1) = (ds', n', evs')"
    by simp
  from Cons.IH [OF this] folder_body_2 [OF b] show ?case
    by (metis append.assoc UnE set_append)
qed

subsection \<open>The two scripts side by side\<close>

lemma file_body_same:
  assumes "calls evs2 = calls evs1"
  shows "fst (file_body_2 split path folder tid x (ds, evs2)) =
           fst (file_body_1 split path folder tid x (ds, evs1)) \<and>
         calls (snd (file_body_2 split path folder tid x (ds, evs2))) =
           calls (snd (file_body_1 split path folder tid x (ds, evs1)))"
  using assms by (cases x) (auto simp: Let_def split: sum.splits)

lemma files_loop_same:
  assumes "calls evs2 = calls evs1"
  shows "fst (files_loop_2 split path folder tid files (ds, evs2)) =
           fst (files_loop_1 split path folder tid files (ds, evs1)) \<and>
         calls (snd (files_loop_2 split path folder tid files (ds, evs2))) =
           calls (snd (files_loop_1 split path folder tid files (ds, evs1)))"
  using assms
proof (induction files arbitrary: ds evs1 evs2)
  case Nil
  then show ?case by simp
next
  case (Cons x files)
  obtain d2 e2 where b2: "file_body_2 split path folder tid x (ds, evs2) = (d2, e2)"
    by (cases "file_body_2 split path folder tid x (ds, evs2)")
  obtain d1 e1 where b1: "file_body_1 split path folder tid x (ds, evs1) = (d1, e1)"
    by (cases "file_body_1 split path folder tid x (ds, evs1)")
  from file_body_same [OF Cons.prems, of split path folder tid x ds] b1 b2
  have "d2 = d1" and "calls e2 = calls e1" by simp_all
  with Cons.IH [of e2 e1 d1] b1 b2 show ?case by simp
qed

lemma folder_body_same:
  assumes "calls evs2 = calls evs1"
  shows "fst (folder_body_2 split tm x (ds, n, evs2)) =
           fst (folder_body_1 split tm x (ds, n, evs1)) \<and>
         fst (snd (folder_body_2 split tm x (ds, n, evs2))) =
           fst (snd (folder_body_1 split tm x (ds, n, evs1))) \<and>
         calls (snd (snd (folder_body_2 split tm x (ds, n, evs2)))) =
           calls (snd (snd (folder_body_1 split tm x (ds, n, evs1))))"
proof (cases x)
  case (Pair folder files)
  show ?thesis
  proof (cases "tm folder")
    case None
    with Pair assms show ?thesis by simp
  next
    case (Some tid)
    have "calls (evs2 @ [Listdir (path_join TOPICS_BASE_PATH folder)]) =
          calls (evs1 @ [Listdir (path_join TOPICS_BASE_PATH folder)])"
      using assms by simp
    from files_loop_same [OF this, of split "path_join TOPICS_BASE_PATH folder" folder tid
        "md_files files" ds]
    show ?thesis
      using Pair Some assms by (auto simp: Let_def split: prod.splits)
  qed
qed

lemma folders_loop_same:
  assumes "calls evs2 = calls evs1"
  shows "fst (folders_loop_2 split tm folders (ds, n, evs2)) =
           fst (folders_loop_1 split tm folders (ds, n, evs1)) \<and>
         fst (snd (folders_loop_2 split tm folders (ds, n, evs2))) =
           fst (snd (folders_loop_1 split tm folders (ds, n, evs1))) \<and>
         calls (snd (snd (folders_loop_2 split tm folders (ds, n, evs2)))) =
           calls (snd (snd (folders_loop_1 split tm folders (ds, n, evs1))))"
  using assms
proof (induction folders arbitrary: ds n evs1 evs2)
  case Nil
  then show ?case by simp
next
  case (Cons x folders)
  obtain d2 n2 e2 where b2: "folder_body_2 split tm x (ds, n, evs2) = (d2, n2, e2)"
    by (cases "folder_body_2 split tm x (ds, n, evs2)")
  obtain d1 n1 e1 where b1: "folder_body_1 split tm x (ds, n, evs1) = (d1, n1, e1)"
    by (cases "folder_body_1 split tm x (ds, n, evs1)")
  from folder_body_same [OF Cons.prems, of split tm x ds n] b1 b2
  have "d2 = d1" and "n2 = n1" and "calls e2 = calls e1" by simp_all
  with Cons.IH [of e2 e1 d1 n1] b1 b2 show ?case by simp
qed

lemma cleanup_1_None: "fst (cleanup_1 cfg w) = None"
  by (simp add: cleanup_1_def Let_def)

lemma cleanup_2_None: "fst (cleanup_2 cfg w) = None"
  by (simp add: cleanup_2_def Let_def)

lemma cleanup_same: "calls (snd (cleanup_2 cfg w)) = calls (snd (cleanup_1 cfg w))"
  by (simp add: cleanup_1_def cleanup_2_def Let_def)

lemma cleanup_1_events:
  "db w \<noteq> None \<Longrightarrow>
   \<exists>pre. snd (cleanup_1 cfg w) = pre @ [Rmtree (DB_LOCATION cfg)] \<and> (\<forall>e \<in> set pre. \<not> is_open e)"
  by (simp add: cleanup_1_def Let_def)

lemma cleanup_2_events:
  "db w \<noteq> None \<Longrightarrow>
   \<exists>pre. snd (cleanup_2 cfg w) = pre @ [Rmtree (DB_LOCATION cfg)] \<and> (\<forall>e \<in> set pre. \<not> is_open e)"
  by (simp add: cleanup_2_def Let_def)

lemma cleanup_1_no_write: "\<forall>e \<in> set (snd (cleanup_1 cfg w)). \<not> is_write e"
  by (simp add: cleanup_1_def Let_def)

lemma cleanup_2_no_write: "\<forall>e \<in> set (snd (cleanup_2 cfg w)). \<not> is_write e"
  by (simp add: cleanup_2_def Let_def)

lemma scan_1:
  assumes "scan_1 ext tm listing evs = (ds, n, evs')"
  shows "(\<forall>d \<in> set ds. labelled tm d) \<and>
         (\<exists>more. evs' = evs @ more \<and> (\<forall>e \<in> set more. \<not> is_write e))"
proof -
  from folders_loop_1 [OF assms [unfolded scan_1_def]]
  obtain new more where "ds = [] @ new" and "\<forall>d \<in> set new. labelled tm d"
    and "evs' = (evs @ map (\<lambda>(d, e). Isdir (path_join TOPICS_BASE_PATH d)) listing) @ more"
    and "\<forall>e \<in> set more. \<not> is_write e"
    by blast
  then show ?thesis
    by (auto simp: split_def intro!: exI [where x = "map (\<lambda>(d, e). Isdir (path_join TOPICS_BASE_PATH d)) listing @ more"])
qed

lemma scan_2:
  assumes "scan_2 ext tm listing evs = (ds, n, evs')"
  shows "(\<forall>d \<in> set ds. labelled tm d) \<and>
         (\<exists>more. evs' = evs @ more \<and> (\<forall>e \<in> set more. \<not> is_write e))"
proof -
  from folders_loop_2 [OF assms [unfolded scan_2_def]]
  obtain new more where "ds = [] @ new" and "\<forall>d \<in> set new. labelled tm d"
    and "evs' = (evs @ map (\<lambda>(d, e). Isdir (path_join TOPICS_BASE_PATH d)) listing) @ more"
    and "\<forall>e \<in> set more. \<not> is_write e"
    by blast
  then show ?thesis
    by (auto simp: split_def intro!: exI [where x = "map (\<lambda>(d, e). Isdir (path_join TOPICS_BASE_PATH d)) listing @ more"])
qed

lemma scan_same:
  assumes "calls evs2 = calls evs1"
  shows "fst (scan_2 ext tm listing evs2) = fst (scan_1 ext tm listing evs1)"
    and "fst (snd (scan_2 ext tm listing evs2)) = fst (snd (scan_1 ext tm listing evs1))"
    and "calls (snd (snd (scan_2 ext tm listing evs2))) =
         calls (snd (snd (scan_1 ext tm listing evs1)))"
proof -
  have "calls (evs2 @ map (\<lambda>(d, e). Isdir (path_join TOPICS_BASE_PATH d)) listing) =
        calls (evs1 @ map (\<lambda>(d, e). Isdir (path_join TOPICS_BASE_PATH d)) listing)"
    using assms by simp
  from folders_loop_same [OF this, of "split_text ext 1000 200" tm "topic_folders listing" "[]" 0]
  show "fst (scan_2 ext tm listing evs2) = fst (scan_1 ext tm listing evs1)"
    and "fst (snd (scan_2 ext tm listing evs2)) = fst (snd (scan_1 ext tm listing evs1))"
    and "calls (snd (snd (scan_2 ext tm listing evs2))) =
         calls (snd (snd (scan_1 ext tm listing evs1)))"
    by (simp_all add: scan_1_def scan_2_def)
qed

lemma report_same:
  assumes "fst s2 = fst s1" and "fst (snd s2) = fst (snd s1)"
    and "calls (snd (snd s2)) = calls (snd (snd s1))"
  shows "outcome (report_2 cfg ext d s2) = outcome (report_1 cfg ext d s1) \<and>
         db_after (report_2 cfg ext d s2) = db_after (report_1 cfg ext d s1) \<and>
         documents (report_2 cfg ext d s2) = documents (report_1 cfg ext d s1) \<and>
         calls (events (report_2 cfg ext d s2)) = calls (events (report_1 cfg ext d s1))"
  using assms by (cases s1; cases s2) (auto simp: report_1_def report_2_def Let_def)

lemma run_1:
  "(\<forall>x \<in> set (documents (report_1 cfg ext d (scan_1 ext tm listing evs))). labelled tm x) \<and>
   outcome (report_1 cfg ext d (scan_1 ext tm listing evs)) =
     (if documents (report_1 cfg ext d (scan_1 ext tm listing evs)) = []
      then Exit_no_documents else Completed) \<and>
   db_after (report_1 cfg ext d (scan_1 ext tm listing evs)) =
     (if documents (report_1 cfg ext d (scan_1 ext tm listing evs)) = [] then d
      else Some (from_documents ext cfg
                   (documents (report_1 cfg ext d (scan_1 ext tm listing evs))))) \<and>
   (\<exists>more. events (report_1 cfg ext d (scan_1 ext tm listing evs)) = evs @ more \<and>
      (documents (report_1 cfg ext d (scan_1 ext tm listing evs)) = [] \<longrightarrow>
       (\<forall>e \<in> set more. \<not> is_write e)))"
proof -
  obtain ds n evs' where s: "scan_1 ext tm listing evs = (ds, n, evs')"
    by (cases "scan_1 ext tm listing evs")
  from scan_1 [OF s] obtain more where "\<forall>x \<in> set ds. labelled tm x" and "evs' = evs @ more"
    and "\<forall>e \<in> set more. \<not> is_write e"
    by blast
  then show ?thesis
    unfolding s report_1_def Let_def by auto
qed

lemma run_1_events:
  "\<exists>more. events (report_1 cfg ext d (scan_1 ext tm listing (pre @ evs))) = pre @ more"
proof -
  from run_1 [where cfg = cfg and ext = ext and d = d and tm = tm and listing = listing
      and evs = "pre @ evs"]
  obtain more where "events (report_1 cfg ext d (scan_1 ext tm listing (pre @ evs))) =
      (pre @ evs) @ more"
    by blast
  then have "events (report_1 cfg ext d (scan_1 ext tm listing (pre @ evs))) =
      pre @ (evs @ more)"
    by simp
  then show ?thesis ..
qed

lemma indexing_1_events: "\<exists>more. events (indexing_1 cfg ext w) = snd (cleanup_1 cfg w) @ more"
proof -
  obtain e1 where c: "cleanup_1 cfg w = (None, e1)"
    using cleanup_1_None [of cfg w] by (cases "cleanup_1 cfg w") simp
  show ?thesis
  proof (cases "topics_json w")
    case Missing
    with c show ?thesis by (simp add: indexing_1_def Let_def)
  next
    case Malformed
    with c show ?thesis by (simp add: indexing_1_def Let_def)
  next
    case (Topics tm)
    show ?thesis
    proof (cases "topics_dir w")
      case None
      with Topics c show ?thesis by (simp add: indexing_1_def Let_def)
    next
      case (Some listing)
      with Topics c show ?thesis
        unfolding indexing_1_def Let_def
        apply simp
        apply (rule run_1_events)
        done
    qed
  qed
qed

lemma indexing_1_halt:
  "outcome (indexing_1 cfg ext w) \<noteq> Completed \<Longrightarrow> db_after (indexing_1 cfg ext w) = None"
proof -
  assume h: "outcome (indexing_1 cfg ext w) \<noteq> Completed"
  obtain e1 where c: "cleanup_1 cfg w = (None, e1)"
    using cleanup_1_None [of cfg w] by (cases "cleanup_1 cfg w") simp
  show ?thesis
  proof (cases "topics_json w")
    case Missing
    with c show ?thesis by (simp add: indexing_1_def Let_def)
  next
    case Malformed
    with c show ?thesis by (simp add: indexing_1_def Let_def)
  next
    case (Topics tm)
    show ?thesis
    proof (cases "topics_dir w")
      case None
      with Topics c show ?thesis by (simp add: indexing_1_def Let_def)
    next
      case (Some listing)
      with Topics c h show ?thesis
        unfolding indexing_1_def Let_def
        using run_1 [where cfg = cfg and ext = ext and d = None and tm = tm and listing = listing]
        by (simp split: if_splits)
    qed
  qed
qed

lemma indexing_1_labelled:
  "topics_json w = Topics tm \<Longrightarrow> \<forall>x \<in> set (documents (indexing_1 cfg ext w)). labelled tm x"
proof -
  assume t: "topics_json w = Topics tm"
  obtain e1 where c: "cleanup_1 cfg w = (None, e1)"
    using cleanup_1_None [of cfg w] by (cases "cleanup_1 cfg w") simp
  show ?thesis
  proof (cases "topics_dir w")
    case None
    with t c show ?thesis by (simp add: indexing_1_def Let_def)
  next
    case (Some listing)
    with t c show ?thesis
      unfolding indexing_1_def Let_def
      using run_1 [where cfg = cfg and ext = ext and d = None and tm = tm and listing = listing]
      by simp
  qed
qed

lemma run_1_no_write:
  assumes "\<forall>e \<in> set evs. \<not> is_write e"
    and "documents (report_1 cfg ext d (scan_1 ext tm listing evs)) = []"
  shows "\<forall>e \<in> set (events (report_1 cfg ext d (scan_1 ext tm listing evs))). \<not> is_write e"
  using run_1 [where cfg = cfg and ext = ext and d = d and tm = tm and listing = listing
      and evs = evs] assms
  by auto

lemma indexing_1_no_write:
  assumes "documents (indexing_1 cfg ext w) = []"
  shows "\<forall>e \<in> set (events (indexing_1 cfg ext w)). \<not> is_write e"
proof -
  obtain e1 where c: "cleanup_1 cfg w = (None, e1)"
    using cleanup_1_None [of cfg w] by (cases "cleanup_1 cfg w") simp
  have n: "\<forall>e \<in> set e1. \<not> is_write e"
    using cleanup_1_no_write [of cfg w] c by simp
  show ?thesis
  proof (cases "topics_json w")
    case Missing
    with c n show ?thesis by (simp add: indexing_1_def Let_def)
  next
    case Malformed
    with c n show ?thesis by (simp add: indexing_1_def Let_def)
  next
    case (Topics tm)
    show ?thesis
    proof (cases "topics_dir w")
      case None
      with Topics c n show ?thesis by (simp add: indexing_1_def Let_def)
    next
      case (Some listing)
      with Topics c n assms show ?thesis
        unfolding indexing_1_def Let_def
        apply simp
        apply (rule run_1_no_write)
         apply simp
        apply assumption
        done
    qed
  qed
qed

lemma indexing_1_empty:
  assumes "topics_json w = Topics tm" and "topics_dir w = Some listing"
    and "documents (indexing_1 cfg ext w) = []"
  shows "outcome (indexing_1 cfg ext w) = Exit_no_documents"
proof -
  obtain e1 where c: "cleanup_1 cfg w = (None, e1)"
    using cleanup_1_None [of cfg w] by (cases "cleanup_1 cfg w") simp
  from assms c show ?thesis
    unfolding indexing_1_def Let_def
    using run_1 [where cfg = cfg and ext = ext and d = None and tm = tm and listing = listing]
    by simp
qed

lemma run_2:
  "(\<forall>x \<in> set (documents (report_2 cfg ext d (scan_2 ext tm listing evs))). labelled tm x) \<and>
   outcome (report_2 cfg ext d (scan_2 ext tm listing evs)) =
     (if documents (report_2 cfg ext d (scan_2 ext tm listing evs)) = []
      then Exit_no_documents else Completed) \<and>
   db_after (report_2 cfg ext d (scan_2 ext tm listing evs)) =
     (if documents (report_2 cfg ext d (scan_2 ext tm listing evs)) = [] then d
      else Some (from_documents ext cfg
                   (documents (report_2 cfg ext d (scan_2 ext tm listing evs))))) \<and>
   (\<exists>more. events (report_2 cfg ext d (scan_2 ext tm listing evs)) = evs @ more \<and>
      (documents (report_2 cfg ext d (scan_2 ext tm listing evs)) = [] \<longrightarrow>
       (\<forall>e \<in> set more. \<not> is_write e)))"
proof -
  obtain ds n evs' where s: "scan_2 ext tm listing evs = (ds, n, evs')"
    by (cases "scan_2 ext tm listing evs")
  from scan_2 [OF s] obtain more where "\<forall>x \<in> set ds. labelled tm x" and "evs' = evs @ more"
    and "\<forall>e \<in> set more. \<not> is_write e"
    by blast
  then show ?thesis
    unfolding s report_2_def Let_def by auto
qed

lemma run_2_events:
  "\<exists>more. events (report_2 cfg ext d (scan_2 ext tm listing (pre @ evs))) = pre @ more"
proof -
  from run_2 [where cfg = cfg and ext = ext and d = d and tm = tm and listing = listing
      and evs = "pre @ evs"]
  obtain more where "events (report_2 cfg ext d (scan_2 ext tm listing (pre @ evs))) =
      (pre @ evs) @ more"
    by blast
  then have "events (report_2 cfg ext d (scan_2 ext tm listing (pre @ evs))) =
      pre @ (evs @ more)"
    by simp
  then show ?thesis ..
qed

lemma indexing_2_events: "\<exists>more. events (indexing_2 cfg ext w) = snd (cleanup_2 cfg w) @ more"
proof -
  obtain e1 where c: "cleanup_2 cfg w = (None, e1)"
    using cleanup_2_None [of cfg w] by (cases "cleanup_2 cfg w") simp
  show ?thesis
  proof (cases "topics_json w")
    case Missing
    with c show ?thesis by (simp add: indexing_2_def Let_def)
  next
    case Malformed
    with c show ?thesis by (simp add: indexing_2_def Let_def)
  next
    case (Topics tm)
    show ?thesis
    proof (cases "topics_dir w")
      case None
      with Topics c show ?thesis by (simp add: indexing_2_def Let_def)
    next
      case (Some listing)
      with Topics c show ?thesis
        unfolding indexing_2_def Let_def
        apply simp
        apply (rule run_2_events)
        done
    qed
  qed
qed

lemma indexing_2_halt:
  "outcome (indexing_2 cfg ext w) \<noteq> Completed \<Longrightarrow> db_after (indexing_2 cfg ext w) = None"
proof -
  assume h: "outcome (indexing_2 cfg ext w) \<noteq> Completed"
  obtain e1 where c: "cleanup_2 cfg w = (None, e1)"
    using cleanup_2_None [of cfg w] by (cases "cleanup_2 cfg w") simp
  show ?thesis
  proof (cases "topics_json w")
    case Missing
    with c show ?thesis by (simp add: indexing_2_def Let_def)
  next
    case Malformed
    with c show ?thesis by (simp add: indexing_2_def Let_def)
  next
    case (Topics tm)
    show ?thesis
    proof (cases "topics_dir w")
      case None
      with Topics c show ?thesis by (simp add: indexing_2_def Let_def)
    next
      case (Some listing)
      with Topics c h show ?thesis
        unfolding indexing_2_def Let_def
        using run_2 [where cfg = cfg and ext = ext and d = None and tm = tm and listing = listing]
        by (simp split: if_splits)
    qed
  qed
qed

lemma indexing_2_labelled:
  "topics_json w = Topics tm \<Longrightarrow> \<forall>x \<in> set (documents (indexing_2 cfg ext w)). labelled tm x"
proof -
  assume t: "topics_json w = Topics tm"
  obtain e1 where c: "cleanup_2 cfg w = (None, e1)"
    using cleanup_2_None [of cfg w] by (cases "cleanup_2 cfg w") simp
  show ?thesis
  proof (cases "topics_dir w")
    case None
    with t c show ?thesis by (simp add: indexing_2_def Let_def)
  next
    case (Some listing)
    with t c show ?thesis
      unfolding indexing_2_def Let_def
      using run_2 [where cfg = cfg and ext = ext and d = None and tm = tm and listing = listing]
      by simp
  qed
qed

lemma run_2_no_write:
  assumes "\<forall>e \<in> set evs. \<not> is_write e"
    and "documents (report_2 cfg ext d (scan_2 ext tm listing evs)) = []"
  shows "\<forall>e \<in> set (events (report_2 cfg ext d (scan_2 ext tm listing evs))). \<not> is_write e"
  using run_2 [where cfg = cfg and ext = ext and d = d and tm = tm and listing = listing
      and evs = evs] assms
  by auto

lemma indexing_2_no_write:
  assumes "documents (indexing_2 cfg ext w) = []"
  shows "\<forall>e \<in> set (events (indexing_2 cfg ext w)). \<not> is_write e"
proof -
  obtain e1 where c: "cleanup_2 cfg w = (None, e1)"
    using cleanup_2_None [of cfg w] by (cases "cleanup_2 cfg w") simp
  have n: "\<forall>e \<in> set e1. \<not> is_write e"
    using cleanup_2_no_write [of cfg w] c by simp
  show ?thesis
  proof (cases "topics_json w")
    case Missing
    with c n show ?thesis by (simp add: indexing_2_def Let_def)
  next
    case Malformed
    with c n show ?thesis by (simp add: indexing_2_def Let_def)
  next
    case (Topics tm)
    show ?thesis
    proof (cases "topics_dir w")
      case None
      with Topics c n show ?thesis by (simp add: indexing_2_def Let_def)
    next
      case (Some listing)
      with Topics c n assms show ?thesis
        unfolding indexing_2_def Let_def
        apply simp
        apply (rule run_2_no_write)
         apply simp
        apply assumption
        done
    qed
  qed
qed

lemma indexing_2_empty:
  assumes "topics_json w = Topics tm" and "topics_dir w = Some listing"
    and "documents (indexing_2 cfg ext w) = []"
  shows "outcome (indexing_2 cfg ext w) = Exit_no_documents"
proof -
  obtain e1 where c: "cleanup_2 cfg w = (None, e1)"
    using cleanup_2_None [of cfg w] by (cases "cleanup_2 cfg w") simp
  from assms c show ?thesis
    unfolding indexing_2_def Let_def
    using run_2 [where cfg = cfg and ext = ext and d = None and tm = tm and listing = listing]
    by simp
qed

lemma indexing_1_written:
  assumes "db_after (indexing_1 cfg ext w) = Some idx"
  shows "idx = from_documents ext cfg (documents (indexing_1 cfg ext w))"
proof -
  obtain e1 where c: "cleanup_1 cfg w = (None, e1)"
    using cleanup_1_None [of cfg w] by (cases "cleanup_1 cfg w") simp
  show ?thesis
  proof (cases "topics_json w")
    case Missing
    with c assms show ?thesis by (simp add: indexing_1_def Let_def)
  next
    case Malformed
    with c assms show ?thesis by (simp add: indexing_1_def Let_def)
  next
    case (Topics tm)
    show ?thesis
    proof (cases "topics_dir w")
      case None
      with Topics c assms show ?thesis by (simp add: indexing_1_def Let_def)
    next
      case (Some listing)
      with Topics c assms show ?thesis
        unfolding indexing_1_def Let_def
        using run_1 [where cfg = cfg and ext = ext and d = None and tm = tm and listing = listing]
        by (simp split: if_splits)
    qed
  qed
qed

lemma indexing_2_written:
  assumes "db_after (indexing_2 cfg ext w) = Some idx"
  shows "idx = from_documents ext cfg (documents (indexing_2 cfg ext w))"
proof -
  obtain e1 where c: "cleanup_2 cfg w = (None, e1)"
    using cleanup_2_None [of cfg w] by (cases "cleanup_2 cfg w") simp
  show ?thesis
  proof (cases "topics_json w")
    case Missing
    with c assms show ?thesis by (simp add: indexing_2_def Let_def)
  next
    case Malformed
    with c assms show ?thesis by (simp add: indexing_2_def Let_def)
  next
    case (Topics tm)
    show ?thesis
    proof (cases "topics_dir w")
      case None
      with Topics c assms show ?thesis by (simp add: indexing_2_def Let_def)
    next
      case (Some listing)
      with Topics c assms show ?thesis
        unfolding indexing_2_def Let_def
        using run_2 [where cfg = cfg and ext = ext and d = None and tm = tm and listing = listing]
        by (simp split: if_splits)
    qed
  qed
qed

lemma from_documents_documents: "map fst (entries (from_documents ext cfg ds)) = ds"
  by (simp add: from_documents_def comp_def)

section \<open>The claims\<close>

text \<open>
  C1. A response whose parsing fails by malformed JSON, a missing key or a value that
  cannot be converted to an integer should make \<^verbatim>\<open>predict\<close> return \<open>(0, 0)\<close> and raise nothing.
  The handler catches \<^verbatim>\<open>JSONDecodeError\<close>, \<^verbatim>\<open>KeyError\<close> and \<^verbatim>\<open>TypeError\<close> only: when the model
  answers \<^verbatim>\<open>{"statement_is_true": "yes", "statement_topic": 3}\<close>, \<^verbatim>\<open>int("yes")\<close> raises
  \<^verbatim>\<open>ValueError\<close>, which leaves \<^verbatim>\<open>predict\<close>.
\<close>

theorem value_error_escapes:
  "snd (predict (answering yes_response) statement) = Inl ValueError"
  using snd_predict_with [where g = "answering yes_response" and r = yes_response
      and statement = statement and loads = json_loads, OF responds_answering]
    parse_response_error [OF parse_yes]
  by (simp add: predict_def)

text \<open>
  C2, as stated: when no chunk has been collected, the run writes no index and leaves the
  storage location as it found it. It fails when an index was there: the run has removed
  it before it finds that there is nothing to index.
\<close>

theorem empty_corpus_changes_store_counterexample:
  "topics_json empty_corpus_world = Topics example_topics \<and>
   documents (indexing_1 example_config example_components empty_corpus_world) = [] \<and>
   outcome (indexing_1 example_config example_components empty_corpus_world) = Exit_no_documents \<and>
   db empty_corpus_world = Some old_index \<and>
   db_after (indexing_1 example_config example_components empty_corpus_world) = None \<and>
   db_after (indexing_1 example_config example_components empty_corpus_world) \<noteq>
     db empty_corpus_world"
proof -
  have "documents (indexing_1 example_config example_components empty_corpus_world) = []"
    by code_simp
  moreover have "outcome (indexing_1 example_config example_components empty_corpus_world) =
      Exit_no_documents"
    by code_simp
  moreover have "db_after (indexing_1 example_config example_components empty_corpus_world) = None"
    by code_simp
  ultimately show ?thesis
    by (simp add: empty_corpus_world_def)
qed

text \<open>
  C2, amended: when, after all folders are processed, no chunk has been collected, the run
  halts before it would write an index: \<^verbatim>\<open>Chroma.from_documents\<close> is not called and the
  storage location holds no index afterwards. That is the state the run found only if no
  index was there before; an index that was there has been removed.
\<close>

theorem empty_corpus_halt:
  assumes "topics_json w = Topics tm" and "topics_dir w = Some listing"
    and "r \<in> {indexing_1 cfg ext w, indexing_2 cfg ext w}"
    and "documents r = []"
  shows "outcome r = Exit_no_documents \<and> (\<forall>e \<in> set (events r). \<not> is_write e) \<and>
         db_after r = None \<and> (db w = None \<longrightarrow> db_after r = db w)"
proof -
  from assms(3) consider "r = indexing_1 cfg ext w" | "r = indexing_2 cfg ext w"
    by auto
  then show ?thesis
  proof cases
    case 1
    with assms indexing_1_empty [of w tm listing cfg ext] indexing_1_no_write [of cfg ext w]
      indexing_1_halt [of cfg ext w]
    show ?thesis by simp
  next
    case 2
    with assms indexing_2_empty [of w tm listing cfg ext] indexing_2_no_write [of cfg ext w]
      indexing_2_halt [of cfg ext w]
    show ?thesis by simp
  qed
qed

theorem empty_corpus_halt_witness:
  "topics_json fresh_empty_world = Topics example_topics \<and>
   topics_dir fresh_empty_world = Some [] \<and>
   documents (indexing_2 example_config example_components fresh_empty_world) = [] \<and>
   outcome (indexing_2 example_config example_components fresh_empty_world) = Exit_no_documents \<and>
   db_after (indexing_2 example_config example_components fresh_empty_world) =
     db fresh_empty_world"
proof -
  have t: "topics_json fresh_empty_world = Topics example_topics"
    and l: "topics_dir fresh_empty_world = Some []"
    and n: "db fresh_empty_world = None"
    by (simp_all add: fresh_empty_world_def)
  have d: "documents (indexing_2 example_config example_components fresh_empty_world) = []"
    by code_simp
  from empty_corpus_halt [OF t l _ d, of example_config example_components] t l d n
  show ?thesis by simp
qed

text \<open>
  C3, as stated: whenever a call does not take the default path, the first component of
  the pair is 0 or 1. It fails when the model answers
  \<^verbatim>\<open>{"statement_is_true": 7, "statement_topic": 3}\<close>: the call returns \<open>(7, 3)\<close>.
\<close>

theorem is_true_not_a_bit_counterexample:
  "responds (answering seven_response) ''Aspirin thins the blood.'' seven_response \<and>
   parse_body json_loads (strip_fence seven_response) = Inr (7, 3) \<and>
   snd (predict (answering seven_response) ''Aspirin thins the blood.'') = Inr (7, 3) \<and>
   (7 :: int) \<noteq> 0 \<and> (7 :: int) \<noteq> 1"
  using snd_predict_with [where g = "answering seven_response" and r = seven_response
      and statement = "''Aspirin thins the blood.''" and loads = json_loads,
      OF responds_answering] parse_response_ok [OF parse_seven]
  by (simp add: predict_def responds_answering parse_seven)
text \<open>
  C3, amended: whenever a call does not take the default path, the first component of the
  pair is the integer \<^verbatim>\<open>int\<close> makes of the value the model gave for \<^verbatim>\<open>statement_is_true\<close>; it
  is 0 or 1 when that value is \<^verbatim>\<open>false\<close>, \<^verbatim>\<open>true\<close>, 0 or 1.
\<close>

theorem is_true_is_coercion:
  assumes "responds g statement r" and "parse_body loads (strip_fence r) = Inr (a, b)"
  shows "snd (predict_with loads g statement) = Inr (a, b) \<and>
         (\<exists>result_json v. loads (strip_fence r) = Inr result_json \<and>
            getitem result_json ''statement_is_true'' = Inr v \<and> py_int v = Inr a \<and>
            (v \<in> {PyBool False, PyBool True, PyInt 0, PyInt 1} \<longrightarrow> a = 0 \<or> a = 1))"
proof -
  from parse_body_Inr [OF assms(2)] obtain result_json v
    where "loads (strip_fence r) = Inr result_json"
      and "getitem result_json ''statement_is_true'' = Inr v" and "py_int v = Inr a"
    by blast
  moreover from this have "v \<in> {PyBool False, PyBool True, PyInt 0, PyInt 1} \<longrightarrow> a = 0 \<or> a = 1"
    by auto
  moreover have "snd (predict_with loads g statement) = Inr (a, b)"
    using snd_predict_with [OF assms(1), of loads] parse_response_ok [OF assms(2)] by simp
  ultimately show ?thesis by blast
qed

theorem is_true_is_coercion_witness:
  "responds (answering fenced_response) ''Aspirin thins the blood.'' fenced_response \<and>
   snd (predict (answering fenced_response) ''Aspirin thins the blood.'') = Inr (1, 3)"
proof -
  have "parse_body json_loads (strip_fence fenced_response) = Inr (1, 3)"
    by code_simp
  from is_true_is_coercion [where g = "answering fenced_response"
      and statement = "''Aspirin thins the blood.''", OF responds_answering this]
  show ?thesis by (simp add: predict_def responds_answering)
qed

text \<open>
  C4. For every chunk a run of either script produces, the topic map has its \<^verbatim>\<open>topic_name\<close>
  as a key, with its \<^verbatim>\<open>topic_id\<close> as the value; so a folder whose name is not a key of the
  topic map gives no chunk. The chunks of the index written are the chunks produced.
\<close>

theorem chunks_labelled:
  assumes "topics_json w = Topics tm"
    and "r \<in> {indexing_1 cfg ext w, indexing_2 cfg ext w}"
  shows "(\<forall>d \<in> set (documents r). tm (topic_name d) = Some (topic_id d)) \<and>
         (\<forall>folder. tm folder = None \<longrightarrow> (\<forall>d \<in> set (documents r). topic_name d \<noteq> folder)) \<and>
         (\<forall>idx. db_after r = Some idx \<longrightarrow> map fst (entries idx) = documents r)"
proof -
  have l: "\<forall>d \<in> set (documents r). labelled tm d"
    using assms indexing_1_labelled [of w tm cfg ext] indexing_2_labelled [of w tm cfg ext]
    by auto
  have "map fst (entries idx) = documents r" if "db_after r = Some idx" for idx
    using that assms(2) indexing_1_written [of cfg ext w idx] indexing_2_written [of cfg ext w idx]
    by (auto simp: from_documents_documents)
  with l show ?thesis
    by (auto simp: labelled_def)
qed

theorem chunks_labelled_witness:
  "topics_json example_world = Topics example_topics \<and>
   documents (indexing_1 example_config example_components example_world) =
     [\<lparr>page_content = ''Aspirin inhibits platelets.'', source_file = ''aspirin.md'',
       topic_name = ''Cardiology'', topic_id = 3\<rparr>] \<and>
   example_topics ''Cardiology'' = Some 3 \<and>
   example_topics ''Unlisted'' = None"
proof -
  have t: "topics_json example_world = Topics example_topics"
    by (simp add: example_world_def)
  have d: "documents (indexing_1 example_config example_components example_world) =
     [\<lparr>page_content = ''Aspirin inhibits platelets.'', source_file = ''aspirin.md'',
       topic_name = ''Cardiology'', topic_id = 3\<rparr>]"
    by code_simp
  from chunks_labelled [OF t, of "indexing_1 example_config example_components example_world"
      example_config example_components] d t
  show ?thesis by (simp add: example_topics_def)
qed

text \<open>
  C5. The text given to the decoder is the response without its first 7 and last 4
  characters if the response starts with \<^verbatim>\<open>```json\<close>, and the response itself otherwise.
  When the model answers \<^verbatim>\<open>{"statement_is_true": 1, "statement_topic": 3}\<close> in such a fence,
  each fence on a line of its own, \<^verbatim>\<open>predict\<close> returns \<open>(1, 3)\<close>.
\<close>

theorem fence_stripping:
  assumes "responds g statement r"
  shows "(Json_loads t \<in> set (fst (predict_with loads g statement))) =
           (t = (if startswith r ''```json'' then without_first_and_last 7 4 r else r)) \<and>
         (r = fenced_response \<longrightarrow> snd (predict g statement) = Inr (1, 3))"
proof -
  obtain final_prompt where p: "fst (predict_with loads g statement) =
      Retriever_invoke \<lparr>search_type = ''mmr'', search_k = 5, search_fetch_k = 20\<rparr> statement #
        Llm_invoke final_prompt # fst (parse_response loads r)"
    using predict_with_responds [OF assms, of loads] by auto
  obtain rest where q: "fst (parse_response loads r) = Json_loads (strip_fence r) # rest"
    and n: "\<forall>t. Json_loads t \<notin> set rest"
    using fst_parse_response [of loads r] by auto
  have "strip_fence r = (if startswith r ''```json'' then without_first_and_last 7 4 r else r)"
    by (simp add: strip_fence_def py_slice_fence)
  with p q n have "(Json_loads t \<in> set (fst (predict_with loads g statement))) =
           (t = (if startswith r ''```json'' then without_first_and_last 7 4 r else r))"
    by auto
  moreover have "r = fenced_response \<longrightarrow> snd (predict g statement) = Inr (1, 3)"
    using snd_predict_with [OF assms, of json_loads] parse_fenced by (simp add: predict_def)
  ultimately show ?thesis by simp
qed

theorem fence_stripping_witness:
  "responds (answering fenced_response) ''Aspirin thins the blood.'' fenced_response \<and>
   Json_loads (without_first_and_last 7 4 fenced_response) \<in>
     set (fst (predict (answering fenced_response) ''Aspirin thins the blood.'')) \<and>
   snd (predict (answering fenced_response) ''Aspirin thins the blood.'') = Inr (1, 3)"
proof -
  have f: "startswith fenced_response ''```json''"
    by (simp add: fenced_response_def startswith_def)
  from fence_stripping [where g = "answering fenced_response" and r = fenced_response
      and statement = "''Aspirin thins the blood.''" and loads = json_loads
      and t = "without_first_and_last 7 4 fenced_response", OF responds_answering] f
  show ?thesis by (simp add: responds_answering predict_def)
qed

text \<open>
  C6. From the same files, configuration, splitter and embedder, the two scripts end the
  same way, leave the same index, with the same records, and make the same calls to the
  outside in the same order; only the lines they print differ.
\<close>

theorem scripts_agree:
  "outcome (indexing_2 cfg ext w) = outcome (indexing_1 cfg ext w) \<and>
   db_after (indexing_2 cfg ext w) = db_after (indexing_1 cfg ext w) \<and>
   documents (indexing_2 cfg ext w) = documents (indexing_1 cfg ext w) \<and>
   records_written (indexing_2 cfg ext w) = records_written (indexing_1 cfg ext w) \<and>
   calls (events (indexing_2 cfg ext w)) = calls (events (indexing_1 cfg ext w))"
proof -
  obtain e1 where c1: "cleanup_1 cfg w = (None, e1)"
    using cleanup_1_None [of cfg w] by (cases "cleanup_1 cfg w") simp
  obtain e2 where c2: "cleanup_2 cfg w = (None, e2)"
    using cleanup_2_None [of cfg w] by (cases "cleanup_2 cfg w") simp
  have e: "calls e2 = calls e1"
    using cleanup_same [of cfg w] c1 c2 by simp
  have main: "outcome (indexing_2 cfg ext w) = outcome (indexing_1 cfg ext w) \<and>
   db_after (indexing_2 cfg ext w) = db_after (indexing_1 cfg ext w) \<and>
   documents (indexing_2 cfg ext w) = documents (indexing_1 cfg ext w) \<and>
   calls (events (indexing_2 cfg ext w)) = calls (events (indexing_1 cfg ext w))"
  proof (cases "topics_json w")
    case Missing
    with c1 c2 e show ?thesis by (simp add: indexing_1_def indexing_2_def Let_def)
  next
    case Malformed
    with c1 c2 e show ?thesis by (simp add: indexing_1_def indexing_2_def Let_def)
  next
    case (Topics tm)
    show ?thesis
    proof (cases "topics_dir w")
      case None
      with Topics c1 c2 e show ?thesis by (simp add: indexing_1_def indexing_2_def Let_def)
    next
      case (Some listing)
      with Topics c1 c2 show ?thesis
        unfolding indexing_1_def indexing_2_def Let_def
        apply simp
        apply (rule report_same)
          apply (rule scan_same, simp add: e)+
        done
    qed
  qed
  then show ?thesis by (auto simp: records_written_def split: option.splits)
qed

text \<open>
  C7. For every statement, \<^verbatim>\<open>predict\<close> first queries the vector store, once, with the search
  type \<^verbatim>\<open>mmr\<close> (maximal marginal relevance), \<^verbatim>\<open>fetch_k\<close> 20 and \<^verbatim>\<open>k\<close> 5; when the query returns
  chunks, the context in the prompt is their texts in the order returned, with a blank line
  between one and the next.
\<close>

theorem retrieval_parameters:
  "(\<exists>rest. fst (predict_with loads g statement) =
       Retriever_invoke \<lparr>search_type = ''mmr'', search_k = 5, search_fetch_k = 20\<rparr> statement # rest \<and>
       (\<forall>cfg s. Retriever_invoke cfg s \<notin> set rest)) \<and>
   (\<forall>docs. retriever_invoke g \<lparr>search_type = ''mmr'', search_k = 5, search_fetch_k = 20\<rparr> statement =
             Inr docs \<longrightarrow>
      (\<exists>rest. fst (predict_with loads g statement) =
         Retriever_invoke \<lparr>search_type = ''mmr'', search_k = 5, search_fetch_k = 20\<rparr> statement #
         Llm_invoke (prompt_template (separated_by ''\<newline>\<newline>'' (map page_content docs))
                       statement (topics_list_str g)) # rest))"
proof -
  obtain rest where q: "fst (parse_response loads r) = Json_loads (strip_fence r) # rest r"
    and n: "\<forall>cfg s. Retriever_invoke cfg s \<notin> set (rest r)" for r
    using fst_parse_response [of loads] by metis
  show ?thesis
    unfolding predict_with_def Let_def join_separated_by
    by (auto simp: q n split: sum.splits)
qed

theorem retrieval_parameters_witness:
  "retriever_invoke (answering_from two_chunks fenced_response)
     \<lparr>search_type = ''mmr'', search_k = 5, search_fetch_k = 20\<rparr> ''Aspirin thins the blood.'' =
     Inr two_chunks \<and>
   (\<exists>rest. fst (predict (answering_from two_chunks fenced_response) ''Aspirin thins the blood.'') =
      Retriever_invoke \<lparr>search_type = ''mmr'', search_k = 5, search_fetch_k = 20\<rparr>
        ''Aspirin thins the blood.'' #
      Llm_invoke (prompt_template
                    ''Aspirin inhibits platelets.\<newline>\<newline>Warfarin is an anticoagulant.''
                    ''Aspirin thins the blood.'' ''{}'') # rest)"
proof -
  have r: "retriever_invoke (answering_from two_chunks fenced_response)
     \<lparr>search_type = ''mmr'', search_k = 5, search_fetch_k = 20\<rparr> ''Aspirin thins the blood.'' =
     Inr two_chunks"
    by (simp add: answering_from_def)
  have s: "separated_by ''\<newline>\<newline>'' (map page_content two_chunks) =
      ''Aspirin inhibits platelets.\<newline>\<newline>Warfarin is an anticoagulant.''"
    by (simp add: separated_by_def two_chunks_def)
  have t: "topics_list_str (answering_from two_chunks fenced_response) = ''{}''"
    by (simp add: answering_from_def)
  from retrieval_parameters [where g = "answering_from two_chunks fenced_response"
      and statement = "''Aspirin thins the blood.''" and loads = json_loads]
  have "\<forall>docs. retriever_invoke (answering_from two_chunks fenced_response)
          \<lparr>search_type = ''mmr'', search_k = 5, search_fetch_k = 20\<rparr>
          ''Aspirin thins the blood.'' = Inr docs \<longrightarrow>
      (\<exists>rest. fst (predict_with json_loads (answering_from two_chunks fenced_response)
                      ''Aspirin thins the blood.'') =
         Retriever_invoke \<lparr>search_type = ''mmr'', search_k = 5, search_fetch_k = 20\<rparr>
           ''Aspirin thins the blood.'' #
         Llm_invoke (prompt_template (separated_by ''\<newline>\<newline>'' (map page_content docs))
                       ''Aspirin thins the blood.''
                       (topics_list_str (answering_from two_chunks fenced_response))) # rest)"
    by (rule conjunct2)
  from this [rule_format, OF r] show ?thesis
    using r by (simp add: predict_def s t)
qed

text \<open>
  C8. When the storage location exists at the start of a run of either script,
  \<^verbatim>\<open>shutil.rmtree\<close> is called on it before any file is opened, the topic map included; a
  run that does not complete (no topic map, no chunk, or an exception) leaves no index.
\<close>

theorem cleanup_precedes:
  assumes "db w \<noteq> None"
    and "r \<in> {indexing_1 cfg ext w, indexing_2 cfg ext w}"
  shows "(\<exists>pre post. events r = pre @ Rmtree (DB_LOCATION cfg) # post \<and>
            (\<forall>e \<in> set pre. \<not> is_open e)) \<and>
         (outcome r \<noteq> Completed \<longrightarrow> db_after r = None)"
proof -
  from assms(2) consider "r = indexing_1 cfg ext w" | "r = indexing_2 cfg ext w"
    by auto
  then show ?thesis
  proof cases
    case 1
    from cleanup_1_events [OF assms(1), of cfg] indexing_1_events [of cfg ext w]
    obtain pre more where "events r = (pre @ [Rmtree (DB_LOCATION cfg)]) @ more"
      and "\<forall>e \<in> set pre. \<not> is_open e"
      unfolding 1 by metis
    then have "\<exists>pre post. events r = pre @ Rmtree (DB_LOCATION cfg) # post \<and>
            (\<forall>e \<in> set pre. \<not> is_open e)"
      by auto
    with indexing_1_halt [of cfg ext w] 1 show ?thesis by simp
  next
    case 2
    from cleanup_2_events [OF assms(1), of cfg] indexing_2_events [of cfg ext w]
    obtain pre more where "events r = (pre @ [Rmtree (DB_LOCATION cfg)]) @ more"
      and "\<forall>e \<in> set pre. \<not> is_open e"
      unfolding 2 by metis
    then have "\<exists>pre post. events r = pre @ Rmtree (DB_LOCATION cfg) # post \<and>
            (\<forall>e \<in> set pre. \<not> is_open e)"
      by auto
    with indexing_2_halt [of cfg ext w] 2 show ?thesis by simp
  qed
qed

theorem cleanup_precedes_witness:
  "db no_topic_map_world \<noteq> None \<and>
   outcome (indexing_1 example_config example_components no_topic_map_world) =
     Exit_no_topic_map \<and>
   db_after (indexing_1 example_config example_components no_topic_map_world) = None"
proof -
  have n: "db no_topic_map_world \<noteq> None"
    by (simp add: no_topic_map_world_def)
  have o: "outcome (indexing_1 example_config example_components no_topic_map_world) =
     Exit_no_topic_map"
    by code_simp
  from cleanup_precedes [OF n, of "indexing_1 example_config example_components no_topic_map_world"
      example_config example_components] n o
  show ?thesis by simp
qed

text \<open>
  C9. Whenever the response parses, the second component of the pair is the integer \<^verbatim>\<open>int\<close>
  makes of the value the model gave for \<^verbatim>\<open>statement_topic\<close>, whatever the topic map is: the
  topic map is not consulted, so the integer need not be the ID of any topic.
\<close>

theorem topic_not_validated:
  assumes "responds g statement r" and "parse_body loads (strip_fence r) = Inr (a, b)"
  shows "\<exists>result_json v. loads (strip_fence r) = Inr result_json \<and>
           getitem result_json ''statement_topic'' = Inr v \<and> py_int v = Inr b \<and>
           (\<forall>tm. snd (predict_with loads (g\<lparr>topics_map := tm\<rparr>) statement) = Inr (a, b))"
proof -
  from parse_body_Inr [OF assms(2)] obtain result_json v
    where "loads (strip_fence r) = Inr result_json"
      and "getitem result_json ''statement_topic'' = Inr v" and "py_int v = Inr b"
    by blast
  moreover have "snd (predict_with loads (g\<lparr>topics_map := tm\<rparr>) statement) = Inr (a, b)" for tm
    using snd_predict_with [where g = "g\<lparr>topics_map := tm\<rparr>" and loads = loads
        and statement = statement and r = r]
      assms(1) parse_response_ok [OF assms(2)]
    by (simp add: responds_topics_map)
  ultimately show ?thesis by blast
qed

theorem topic_not_validated_witness:
  "responds (answering off_list_response) ''Aspirin thins the blood.'' off_list_response \<and>
   snd (predict ((answering off_list_response)\<lparr>topics_map := [''Cardiology'' \<mapsto> 3]\<rparr>)
          ''Aspirin thins the blood.'') = Inr (1, 99) \<and>
   (99 :: int) \<notin> ran [''Cardiology'' \<mapsto> 3]"
proof -
  from topic_not_validated [where g = "answering off_list_response"
      and statement = "''Aspirin thins the blood.''", OF responds_answering parse_off_list]
  have "snd (predict_with json_loads ((answering off_list_response)\<lparr>topics_map := [''Cardiology'' \<mapsto> 3]\<rparr>)
          ''Aspirin thins the blood.'') = Inr (1, 99)"
    by blast
  then show ?thesis
    by (simp add: predict_def responds_answering)
qed

text \<open>
  C10. If parsing fails with an exception the handler catches, at any of its five points
  (decoding, reading either key, converting either value), \<^verbatim>\<open>predict\<close> returns \<open>(0, 0)\<close>: also
  when the first value had been read and converted before the failure.
\<close>

theorem no_mixed_default:
  assumes "responds g statement r" and "caught e"
    and "loads (strip_fence r) = Inl e \<or>
         (\<exists>result_json. loads (strip_fence r) = Inr result_json \<and>
            (getitem result_json ''statement_is_true'' = Inl e \<or>
             (\<exists>v1. getitem result_json ''statement_is_true'' = Inr v1 \<and>
                (py_int v1 = Inl e \<or>
                 (\<exists>a. py_int v1 = Inr a \<and>
                    (getitem result_json ''statement_topic'' = Inl e \<or>
                     (\<exists>v2. getitem result_json ''statement_topic'' = Inr v2 \<and>
                        py_int v2 = Inl e)))))))"
  shows "snd (predict_with loads g statement) = Inr (0, 0)"
proof -
  from assms(3) have "parse_body loads (strip_fence r) = Inl e"
    unfolding parse_body_def by (auto split: sum.splits)
  from parse_response_error [OF this] assms(2) snd_predict_with [OF assms(1), of loads]
  show ?thesis by simp
qed

theorem no_mixed_default_witness:
  "responds (answering null_topic_response) ''Aspirin thins the blood.'' null_topic_response \<and>
   caught TypeError \<and>
   py_int (PyInt 1) = Inr 1 \<and> py_int PyNone = Inl TypeError \<and>
   snd (predict (answering null_topic_response) ''Aspirin thins the blood.'') = Inr (0, 0)"
proof -
  have "\<exists>result_json. json_loads (strip_fence null_topic_response) = Inr result_json \<and>
            (getitem result_json ''statement_is_true'' = Inl TypeError \<or>
             (\<exists>v1. getitem result_json ''statement_is_true'' = Inr v1 \<and>
                (py_int v1 = Inl TypeError \<or>
                 (\<exists>a. py_int v1 = Inr a \<and>
                    (getitem result_json ''statement_topic'' = Inl TypeError \<or>
                     (\<exists>v2. getitem result_json ''statement_topic'' = Inr v2 \<and>
                        py_int v2 = Inl TypeError))))))"
    by (simp add: loads_null_topic)
  then have "snd (predict_with json_loads (answering null_topic_response)
      ''Aspirin thins the blood.'') = Inr (0, 0)"
    using no_mixed_default [where g = "answering null_topic_response"
        and statement = "''Aspirin thins the blood.''" and r = null_topic_response
        and e = TypeError and loads = json_loads, OF responds_answering]
    by simp
  then show ?thesis
    by (simp add: predict_def responds_answering)
qed

end
